theory Spec2Isabelle
  imports Complex_Main "HOL-Library.AList"
begin

section \<open>Data model\<close>

text \<open>
  Numbers of the source are IEEE doubles. A finite double is a \<open>real\<close>. The source
  compares, subtracts, takes minima and absolute values of coordinates, which is done on
  the reals here, with one exception: the spacing test of the drag callback stores a
  difference in a \<open>Float32Array\<close> and compares what it computes from it with a threshold.
  There every operation is rounded as IEEE 754 prescribes (to nearest, ties to even, with
  subnormal numbers), and a result beyond the range of the format is an infinity or a
  NaN: \<open>NotFinite\<close>.
\<close>

datatype number = Finite real | NotFinite

definition round_half_even :: "real \<Rightarrow> int" where
  "round_half_even x =
     (let n = \<lfloor>x\<rfloor>; r = x - real_of_int n
      in if r < 1 / 2 then n else if 1 / 2 < r then n + 1 else if even n then n else n + 1)"

text \<open>
  The number of the binary format with \<open>p\<close> significant bits and least normal exponent
  \<open>emin\<close> that is nearest to \<open>x\<close>. The largest exponent of the format is \<open>1 - emin\<close>.
\<close>

definition round_binary :: "nat \<Rightarrow> int \<Rightarrow> real \<Rightarrow> number" where
  "round_binary p emin x =
     (if x = 0 then Finite 0
      else
        (let e = max \<lfloor>log 2 \<bar>x\<bar>\<rfloor> emin;
             q = 2 powr real_of_int (e - int p + 1);
             r = real_of_int (round_half_even (x / q)) * q
         in if \<bar>r\<bar> < 2 powr real_of_int (2 - emin) then Finite r else NotFinite))"

definition double :: "real \<Rightarrow> number" where
  "double = round_binary 53 (- 1022)"

definition float32 :: "real \<Rightarrow> number" where
  "float32 = round_binary 24 (- 126)"

text \<open>
  Arithmetic on doubles. An operand that is not finite gives a result that is not finite:
  infinities add up to an infinity or a NaN, and an infinity times zero is a NaN.
  \<open>num_le\<close> is the comparison \<open>a <= b\<close> with a finite \<open>b\<close>, for an \<open>a\<close> that is not a
  negative infinity: it is false of \<open>+Infinity\<close> and of a NaN.
\<close>

definition num_mul :: "number \<Rightarrow> real \<Rightarrow> number" where
  "num_mul a b = (case a of Finite x \<Rightarrow> double (x * b) | NotFinite \<Rightarrow> NotFinite)"

definition num_add :: "number \<Rightarrow> number \<Rightarrow> number" where
  "num_add a b =
     (case a of
        Finite x \<Rightarrow> (case b of Finite y \<Rightarrow> double (x + y) | NotFinite \<Rightarrow> NotFinite)
      | NotFinite \<Rightarrow> NotFinite)"

definition Math_abs :: "number \<Rightarrow> number" where
  "Math_abs a = (case a of Finite x \<Rightarrow> Finite \<bar>x\<bar> | NotFinite \<Rightarrow> NotFinite)"

definition num_le :: "number \<Rightarrow> real \<Rightarrow> bool" where
  "num_le a b = (case a of Finite x \<Rightarrow> x \<le> b | NotFinite \<Rightarrow> False)"

type_synonym point2 = "real \<times> real"
type_synonym point3 = "real \<times> real \<times> real"

text \<open>
  \<open>vec3\<close> of gl-matrix. \<open>vec3.create()\<close> is a \<open>Float32Array\<close>, so \<open>vec3.subtract\<close> stores
  each difference of two doubles rounded to single precision; \<open>vec3.dot\<close> multiplies and
  adds in double precision, from left to right.
\<close>

type_synonym vec3 = "number \<times> number \<times> number"

definition to_float32 :: "number \<Rightarrow> number" where
  "to_float32 a = (case a of Finite x \<Rightarrow> float32 x | NotFinite \<Rightarrow> NotFinite)"

definition vec3_subtract :: "point3 \<Rightarrow> point3 \<Rightarrow> vec3" where
  "vec3_subtract a b =
     (to_float32 (double (fst a - fst b)),
      to_float32 (double (fst (snd a) - fst (snd b))),
      to_float32 (double (snd (snd a) - snd (snd b))))"

definition vec3_dot :: "vec3 \<Rightarrow> point3 \<Rightarrow> number" where
  "vec3_dot a b =
     num_add (num_add (num_mul (fst a) (fst b)) (num_mul (fst (snd a)) (fst (snd b))))
       (num_mul (snd (snd a)) (snd (snd b)))"

text \<open>
  An \<open>Annotation\<close> object. The nested \<open>metadata\<close> and \<open>data\<close> objects are owned by their
  annotation alone, so the three objects are one heap cell; field names carry the path.
  An optional property is an \<open>option\<close>, \<open>None\<close> being \<open>undefined\<close>.
\<close>

record annotation =
  annotationUID :: string
  metadata_FrameOfReferenceUID :: string
  metadata_toolName :: string
  invalidated :: "bool option"
  data_polyline :: "point3 list"
  data_isOpenContour :: "bool option"
  data_handles_points :: "point3 option list"
  data_handles_activeHandleIndex :: "int option"
  data_isOpenUShapeContour :: "bool option"
  data_openUShapeContourVectorToPeak :: "point3 list option"

text \<open>
  Objects are mutable and shared by reference, so they live in an explicit heap. There is
  one table per TypeScript type:
  \<^item> \<open>anns\<close>: \<open>Annotation\<close> objects;
  \<^item> \<open>arrays\<close>: \<open>Annotations\<close> arrays, holding references to annotation objects;
  \<^item> \<open>frames\<close>: \<open>FrameOfReferenceSpecificAnnotations\<close> objects, tool name to array reference;
  \<^item> \<open>states\<close>: \<open>AnnotationState\<close> objects, frame-of-reference UID to frame reference.

  A plain object is the list of its own properties, with distinct keys, in the order in
  which they were created. \<open>next_addr\<close> is the first address that was never allocated.
\<close>

type_synonym addr = nat

record heap =
  anns :: "addr \<Rightarrow> annotation"
  arrays :: "addr \<Rightarrow> addr list"
  frames :: "addr \<Rightarrow> (string \<times> addr) list"
  states :: "addr \<Rightarrow> (string \<times> addr) list"
  next_addr :: addr

text \<open>
  \<open>Object.keys\<close> lists the keys that are array indices first, in numeric order, and then
  all other keys in the order of their creation. An array index is the decimal numeral,
  without leading zeros, of an integer below \<open>2^32 - 1\<close>. Where an array index stands in
  the list of properties is therefore not observable.
\<close>

definition is_digit :: "char \<Rightarrow> bool" where
  "is_digit c \<longleftrightarrow> c \<in> set ''0123456789''"

definition decimal :: "string \<Rightarrow> nat" where
  "decimal s = foldl (\<lambda>n c. 10 * n + (of_char c - 48)) 0 s"

definition is_array_index :: "string \<Rightarrow> bool" where
  "is_array_index s \<longleftrightarrow>
     s \<noteq> [] \<and> list_all is_digit s \<and> (if hd s = CHR ''0'' then s = ''0'' else True)
     \<and> decimal s < 4294967295"

definition Object_keys :: "(string \<times> 'a) list \<Rightarrow> string list" where
  "Object_keys obj =
     sort_key decimal (filter is_array_index (map fst obj))
     @ filter (\<lambda>k. \<not> is_array_index k) (map fst obj)"

text \<open>
  A read \<open>obj[k]\<close> finds the own property \<open>k\<close>; without one it finds what
  \<open>Object.prototype\<close> has under that name, which is a built-in function or, for
  \<open>__proto__\<close>, the prototype object itself; otherwise it gives \<open>undefined\<close>. The built-in
  values are truthy, they are no arrays and have no method \<open>findIndex\<close> or \<open>push\<close>, and
  as the engine creates them they have no enumerable property of their own.
\<close>

definition Object_prototype_names :: "string list" where
  "Object_prototype_names =
     [''constructor'', ''hasOwnProperty'', ''isPrototypeOf'', ''propertyIsEnumerable'',
      ''toLocaleString'', ''toString'', ''valueOf'', ''__proto__'', ''__defineGetter__'',
      ''__defineSetter__'', ''__lookupGetter__'', ''__lookupSetter__'']"

datatype 'a lookup = Own 'a | Inherited | Missing

definition js_get :: "(string \<times> 'a) list \<Rightarrow> string \<Rightarrow> 'a lookup" where
  "js_get obj k =
     (case map_of obj k of
        Some v \<Rightarrow> Own v
      | None \<Rightarrow> if k \<in> set Object_prototype_names then Inherited else Missing)"

text \<open>
  A method returns, or it throws a \<open>TypeError\<close>, or it carries on with a built-in value of
  the engine in the place of a frame object and reads, writes or deletes a property of
  that built-in. What it finds there differs between engines, and it is a write to an
  object of the engine and not to the store: the model stops there with \<open>BuiltinObject\<close>.
\<close>

datatype error = TypeError | BuiltinObject

definition alloc_ann :: "heap \<Rightarrow> annotation \<Rightarrow> heap \<times> addr" where
  "alloc_ann h a =
     (h\<lparr>anns := (anns h)(next_addr h := a), next_addr := Suc (next_addr h)\<rparr>, next_addr h)"

definition alloc_array :: "heap \<Rightarrow> addr list \<Rightarrow> heap \<times> addr" where
  "alloc_array h ps =
     (h\<lparr>arrays := (arrays h)(next_addr h := ps), next_addr := Suc (next_addr h)\<rparr>, next_addr h)"

definition alloc_frame :: "heap \<Rightarrow> (string \<times> addr) list \<Rightarrow> heap \<times> addr" where
  "alloc_frame h d =
     (h\<lparr>frames := (frames h)(next_addr h := d), next_addr := Suc (next_addr h)\<rparr>, next_addr h)"

definition alloc_state :: "heap \<Rightarrow> (string \<times> addr) list \<Rightarrow> heap \<times> addr" where
  "alloc_state h d =
     (h\<lparr>states := (states h)(next_addr h := d), next_addr := Suc (next_addr h)\<rparr>, next_addr h)"

text \<open>JavaScript truthiness of an optional string: \<open>undefined\<close> and \<open>''\<close> are falsy.\<close>

definition truthy :: "string option \<Rightarrow> bool" where
  "truthy s = (case s of None \<Rightarrow> False | Some v \<Rightarrow> v \<noteq> [])"

text \<open>\<open>Array.prototype.findIndex\<close>; the result \<open>-1\<close> of the source is \<open>None\<close>.\<close>

fun findIndex :: "('a \<Rightarrow> bool) \<Rightarrow> 'a list \<Rightarrow> nat option" where
  "findIndex P [] = None"
| "findIndex P (x # xs) = (if P x then Some 0 else map_option Suc (findIndex P xs))"

text \<open>\<open>xs.splice(i, 1)\<close>, as the array it leaves behind.\<close>

definition splice1 :: "nat \<Rightarrow> 'a list \<Rightarrow> 'a list" where
  "splice1 i xs = take i xs @ drop (Suc i) xs"

section \<open>The annotation store: FrameOfReferenceSpecificAnnotationManager\<close>

text \<open>
  The manager's private field \<open>this.annotations\<close> is a reference to an \<open>AnnotationState\<close>
  object; every method takes the heap and that reference. The constructor sets
  \<open>this.annotations = {}\<close>.
\<close>

definition new_manager :: "heap \<Rightarrow> heap \<times> addr" where
  "new_manager h = alloc_state h []"

record FilterInterface =
  filter_FrameOfReferenceUID :: "string option"
  filter_toolName :: "string option"

definition no_filter :: FilterInterface where
  "no_filter = \<lparr>filter_FrameOfReferenceUID = None, filter_toolName = None\<rparr>"

text \<open>
  \<open>_imageVolumeModifiedHandler\<close>: every annotation under the event's frame of reference whose
  \<open>invalidated\<close> is not \<open>undefined\<close> gets \<open>invalidated = true\<close>. Under a name inherited
  from \<open>Object.prototype\<close> the handler finds a built-in value, which has no keys to visit.
\<close>

definition invalidate_one :: "heap \<Rightarrow> addr \<Rightarrow> heap" where
  "invalidate_one h p =
     (if invalidated (anns h p) \<noteq> None
      then h\<lparr>anns := (anns h)(p := (anns h p)\<lparr>invalidated := Some True\<rparr>)\<rparr>
      else h)"

definition imageVolumeModifiedHandler :: "heap \<Rightarrow> addr \<Rightarrow> string \<Rightarrow> heap" where
  "imageVolumeModifiedHandler h this_annotations FoR =
     (case js_get (states h this_annotations) FoR of
        Missing \<Rightarrow> h
      | Inherited \<Rightarrow> h
      | Own fr \<Rightarrow>
          fold (\<lambda>tool h'. fold (\<lambda>p h''. invalidate_one h'' p)
                                 (arrays h' (the (map_of (frames h' fr) tool))) h')
               (Object_keys (frames h fr)) h)"

definition getFramesOfReference :: "heap \<Rightarrow> addr \<Rightarrow> string list" where
  "getFramesOfReference h this_annotations = Object_keys (states h this_annotations)"

text \<open>
  \<open>getFrameOfReferenceAnnotations\<close> and \<open>getAnnotations\<close> return what they read under
  the key, \<open>undefined\<close> being \<open>None\<close>. They, and the reads and writes by key of
  \<open>saveAnnotations\<close> and \<open>restoreAnnotations\<close> below, are given for keys that are not
  names of properties of \<open>Object.prototype\<close>: for those a read without an own property is
  \<open>undefined\<close> and a write creates an own property.
\<close>

definition getFrameOfReferenceAnnotations :: "heap \<Rightarrow> addr \<Rightarrow> string \<Rightarrow> addr option" where
  "getFrameOfReferenceAnnotations h this_annotations FoR = map_of (states h this_annotations) FoR"

definition get_annotations :: "heap \<Rightarrow> addr \<Rightarrow> string \<Rightarrow> string \<Rightarrow> addr option" where
  "get_annotations h this_annotations FoR tool =
     (case map_of (states h this_annotations) FoR of
        None \<Rightarrow> None
      | Some fr \<Rightarrow> map_of (frames h fr) tool)"

text \<open>
  \<open>_getToolSpecificAnnotationsAndIndex\<close>. The inner loop reads
  \<open>frameOfReferenceSpecificAnnotations[toolName]\<close> and calls \<open>findIndex\<close> on it: when the
  tool name is not a key of the frame, the receiver is \<open>undefined\<close> or a built-in value
  without that method, and the call throws a \<open>TypeError\<close>. The outer loop reads
  \<open>annotations[frameOfReferenceUID]\<close>: when the key is absent the frame is \<open>undefined\<close>,
  and both \<open>Object.keys(undefined)\<close> and \<open>undefined[toolName]\<close> throw a \<open>TypeError\<close>. When
  the name is inherited from \<open>Object.prototype\<close>, the frame is a built-in value: it has
  no keys, so without a tool name the inner loop does nothing, and what it has under a
  tool name is \<open>undefined\<close> or again a built-in value, so with a tool name the call of
  \<open>findIndex\<close> throws.
\<close>

fun search_tools ::
  "heap \<Rightarrow> string \<Rightarrow> (string \<times> addr) list \<Rightarrow> string list \<Rightarrow> error + (addr \<times> nat) option" where
  "search_tools h uid fr [] = Inr None"
| "search_tools h uid fr (tool # tools) =
     (case js_get fr tool of
        Missing \<Rightarrow> Inl TypeError
      | Inherited \<Rightarrow> Inl TypeError
      | Own arr \<Rightarrow>
          (case findIndex (\<lambda>p. annotationUID (anns h p) = uid) (arrays h arr) of
             Some i \<Rightarrow> Inr (Some (arr, i))
           | None \<Rightarrow> search_tools h uid fr tools))"

fun search_frames ::
  "heap \<Rightarrow> string \<Rightarrow> string option \<Rightarrow> (string \<times> addr) list \<Rightarrow> string list
     \<Rightarrow> error + (addr \<times> nat) option" where
  "search_frames h uid tool st [] = Inr None"
| "search_frames h uid tool st (FoR # FoRs) =
     (case js_get st FoR of
        Missing \<Rightarrow> Inl TypeError
      | Inherited \<Rightarrow> if truthy tool then Inl TypeError else search_frames h uid tool st FoRs
      | Own fr \<Rightarrow>
          (case search_tools h uid (frames h fr)
                  (if truthy tool then [the tool] else Object_keys (frames h fr)) of
             Inl e \<Rightarrow> Inl e
           | Inr (Some r) \<Rightarrow> Inr (Some r)
           | Inr None \<Rightarrow> search_frames h uid tool st FoRs))"

definition getToolSpecificAnnotationsAndIndex ::
  "heap \<Rightarrow> addr \<Rightarrow> string \<Rightarrow> FilterInterface \<Rightarrow> error + (addr \<times> nat) option" where
  "getToolSpecificAnnotationsAndIndex h this_annotations uid flt =
     search_frames h uid (filter_toolName flt) (states h this_annotations)
       (if truthy (filter_FrameOfReferenceUID flt)
        then [the (filter_FrameOfReferenceUID flt)]
        else Object_keys (states h this_annotations))"

text \<open>\<open>getAnnotation\<close> returns the annotation object (its reference) or \<open>undefined\<close>.\<close>

definition getAnnotation ::
  "heap \<Rightarrow> addr \<Rightarrow> string \<Rightarrow> FilterInterface \<Rightarrow> error + addr option" where
  "getAnnotation h this_annotations uid flt =
     (case getToolSpecificAnnotationsAndIndex h this_annotations uid flt of
        Inl e \<Rightarrow> Inl e
      | Inr None \<Rightarrow> Inr None
      | Inr (Some (arr, i)) \<Rightarrow> Inr (Some (arrays h arr ! i)))"

text \<open>
  \<open>addAnnotation\<close> creates the frame object and the tool array when they are missing and
  pushes the reference. When the frame-of-reference UID is a name inherited from
  \<open>Object.prototype\<close>, the read is truthy, no frame object is created and the source
  carries on with the built-in value. When the tool name is one, the read is truthy, no
  array is created and the call of \<open>push\<close> on the built-in value throws. The calls
  \<open>checkAndDefineIsLockedProperty\<close> and \<open>checkAndDefineIsVisibleProperty\<close> only define
  the lock and visibility properties of the annotation, which are not part of this model.
\<close>

definition addAnnotation :: "heap \<Rightarrow> addr \<Rightarrow> addr \<Rightarrow> error + heap" where
  "addAnnotation h this_annotations p =
     (let FoR = metadata_FrameOfReferenceUID (anns h p);
          tool = metadata_toolName (anns h p)
      in case js_get (states h this_annotations) FoR of
           Inherited \<Rightarrow> Inl BuiltinObject
         | found \<Rightarrow>
             (let (h1, fr) =
                    (case found of
                       Own fr \<Rightarrow> (h, fr)
                     | _ \<Rightarrow>
                         (let (h', fr) = alloc_frame h []
                          in (h'\<lparr>states := (states h')
                                    (this_annotations :=
                                       AList.update FoR fr (states h' this_annotations))\<rparr>,
                              fr)))
              in case js_get (frames h1 fr) tool of
                   Inherited \<Rightarrow> Inl TypeError
                 | found' \<Rightarrow>
                     (let (h2, arr) =
                            (case found' of
                               Own arr \<Rightarrow> (h1, arr)
                             | _ \<Rightarrow>
                                 (let (h', arr) = alloc_array h1 []
                                  in (h'\<lparr>frames := (frames h')
                                            (fr := AList.update tool arr (frames h' fr))\<rparr>,
                                      arr)))
                      in Inr (h2\<lparr>arrays := (arrays h2)(arr := arrays h2 arr @ [p])\<rparr>))))"

text \<open>
  \<open>removeAnnotation\<close> reads the metadata of element 0 of the array before the splice; when
  the array is empty afterwards it deletes the tool key from
  \<open>this.annotations[metadata.FrameOfReferenceUID]\<close>, which throws when that frame is
  \<open>undefined\<close> and is a deletion from a built-in value when that name is inherited from
  \<open>Object.prototype\<close>. The frame-of-reference key itself is never deleted.
\<close>

definition removeAnnotation ::
  "heap \<Rightarrow> addr \<Rightarrow> string \<Rightarrow> FilterInterface \<Rightarrow> error + heap" where
  "removeAnnotation h this_annotations uid flt =
     (case getToolSpecificAnnotationsAndIndex h this_annotations uid flt of
        Inl e \<Rightarrow> Inl e
      | Inr None \<Rightarrow> Inr h
      | Inr (Some (arr, i)) \<Rightarrow>
          (let md = anns h (arrays h arr ! 0);
               h1 = h\<lparr>arrays := (arrays h)(arr := splice1 i (arrays h arr))\<rparr>
           in if arrays h1 arr = []
              then (case js_get (states h1 this_annotations) (metadata_FrameOfReferenceUID md) of
                      Missing \<Rightarrow> Inl TypeError
                    | Inherited \<Rightarrow> Inl BuiltinObject
                    | Own fr \<Rightarrow>
                        Inr (h1\<lparr>frames := (frames h1)
                                  (fr := AList.delete (metadata_toolName md) (frames h1 fr))\<rparr>))
              else Inr h1))"

text \<open>
  \<open>cloneDeep\<close> (lodash) at the three types it is called on. Every object met is copied into
  a newly allocated cell. An object referenced twice inside the value is copied once per
  reference here; lodash keeps such a pair shared inside the copy. Neither the content of
  the copy nor its separation from the original depends on that.
\<close>

fun clone_anns :: "heap \<Rightarrow> addr list \<Rightarrow> heap \<times> addr list" where
  "clone_anns h [] = (h, [])"
| "clone_anns h (p # ps) =
     (let (h1, p') = alloc_ann h (anns h p);
          (h2, ps') = clone_anns h1 ps
      in (h2, p' # ps'))"

definition cloneDeep_Annotations :: "heap \<Rightarrow> addr \<Rightarrow> heap \<times> addr" where
  "cloneDeep_Annotations h arr =
     (let (h1, ps') = clone_anns h (arrays h arr) in alloc_array h1 ps')"

text \<open>The properties of a plain object are copied in order, each value by \<open>cl\<close>.\<close>

fun clone_entries ::
  "(heap \<Rightarrow> addr \<Rightarrow> heap \<times> addr) \<Rightarrow> heap \<Rightarrow> (string \<times> addr) list
     \<Rightarrow> heap \<times> (string \<times> addr) list" where
  "clone_entries cl h [] = (h, [])"
| "clone_entries cl h ((k, a) # d) =
     (let (h1, a') = cl h a;
          (h2, d') = clone_entries cl h1 d
      in (h2, (k, a') # d'))"

definition cloneDeep_Frame :: "heap \<Rightarrow> addr \<Rightarrow> heap \<times> addr" where
  "cloneDeep_Frame h fr =
     (let (h1, d') = clone_entries cloneDeep_Annotations h (frames h fr) in alloc_frame h1 d')"

definition cloneDeep_State :: "heap \<Rightarrow> addr \<Rightarrow> heap \<times> addr" where
  "cloneDeep_State h st =
     (let (h1, d') = clone_entries cloneDeep_Frame h (states h st) in alloc_state h1 d')"

text \<open>
  \<open>saveAnnotations\<close> returns a reference to the copy, or \<open>undefined\<close>. The reference is to
  an array, a frame object or a state object, depending on the branch taken.
\<close>

definition saveAnnotations ::
  "heap \<Rightarrow> addr \<Rightarrow> string option \<Rightarrow> string option \<Rightarrow> heap \<times> addr option" where
  "saveAnnotations h this_annotations FoR tool =
     (if truthy FoR \<and> truthy tool then
        (case map_of (states h this_annotations) (the FoR) of
           None \<Rightarrow> (h, None)
         | Some fr \<Rightarrow>
             (case map_of (frames h fr) (the tool) of
                None \<Rightarrow> (h, None)
              | Some arr \<Rightarrow> (let (h', c) = cloneDeep_Annotations h arr in (h', Some c))))
      else if truthy FoR then
        (case map_of (states h this_annotations) (the FoR) of
           None \<Rightarrow> (h, None)
         | Some fr \<Rightarrow> (let (h', c) = cloneDeep_Frame h fr in (h', Some c)))
      else (let (h', c) = cloneDeep_State h this_annotations in (h', Some c)))"

text \<open>
  \<open>restoreAnnotations\<close> returns the heap and the new value of \<open>this.annotations\<close>. The
  argument \<open>state\<close> is a reference; the branch taken casts it to the type it stores.
  Only the last branch copies.
\<close>

definition restoreAnnotations ::
  "heap \<Rightarrow> addr \<Rightarrow> addr \<Rightarrow> string option \<Rightarrow> string option \<Rightarrow> heap \<times> addr" where
  "restoreAnnotations h this_annotations state FoR tool =
     (if truthy FoR \<and> truthy tool then
        (let (h1, fr) =
               (case map_of (states h this_annotations) (the FoR) of
                  Some fr \<Rightarrow> (h, fr)
                | None \<Rightarrow>
                    (let (h', fr) = alloc_frame h []
                     in (h'\<lparr>states := (states h')
                               (this_annotations :=
                                  AList.update (the FoR) fr (states h' this_annotations))\<rparr>,
                         fr)))
         in (h1\<lparr>frames := (frames h1)(fr := AList.update (the tool) state (frames h1 fr))\<rparr>,
             this_annotations))
      else if truthy FoR then
        (h\<lparr>states := (states h)
              (this_annotations := AList.update (the FoR) state (states h this_annotations))\<rparr>,
         this_annotations)
      else cloneDeep_State h state)"

section \<open>Observations of the store\<close>

text \<open>The nested value a reference stands for: what a deep comparison looks at.\<close>

definition view_array :: "heap \<Rightarrow> addr \<Rightarrow> annotation list" where
  "view_array h arr = map (anns h) (arrays h arr)"

definition view_frame :: "heap \<Rightarrow> addr \<Rightarrow> (string \<times> annotation list) list" where
  "view_frame h fr = map (\<lambda>(tool, arr). (tool, view_array h arr)) (frames h fr)"

definition view_state :: "heap \<Rightarrow> addr \<Rightarrow> (string \<times> (string \<times> annotation list) list) list" where
  "view_state h st = map (\<lambda>(FoR, fr). (FoR, view_frame h fr)) (states h st)"

text \<open>
  The annotation objects stored under a frame of reference, in the order the handler
  visits them: for each key of the frame object, the array read under that key.
\<close>

definition annotations_under :: "heap \<Rightarrow> addr \<Rightarrow> string \<Rightarrow> addr list" where
  "annotations_under h this_annotations FoR =
     (case js_get (states h this_annotations) FoR of
        Missing \<Rightarrow> []
      | Inherited \<Rightarrow> []
      | Own fr \<Rightarrow>
          concat (map (\<lambda>tool. arrays h (the (map_of (frames h fr) tool)))
                    (Object_keys (frames h fr))))"

text \<open>
  The mutable objects that make up the value of a state object, besides the state object
  itself: its frame objects, their arrays and the annotation objects in them.
\<close>

definition state_frames :: "heap \<Rightarrow> addr \<Rightarrow> addr set" where
  "state_frames h st = snd ` set (states h st)"

definition state_arrays :: "heap \<Rightarrow> addr \<Rightarrow> addr set" where
  "state_arrays h st = (\<Union>fr \<in> state_frames h st. snd ` set (frames h fr))"

definition state_anns :: "heap \<Rightarrow> addr \<Rightarrow> addr set" where
  "state_anns h st = (\<Union>arr \<in> state_arrays h st. set (arrays h arr))"

section \<open>Well-formed stores\<close>

text \<open>
  A store is closed when every reference reachable from it is to an allocated object.
  JavaScript has no dangling references, so every store of the program is closed.
\<close>

definition closed_array :: "heap \<Rightarrow> addr \<Rightarrow> bool" where
  "closed_array h arr \<longleftrightarrow> arr < next_addr h \<and> (\<forall>p \<in> set (arrays h arr). p < next_addr h)"

definition closed_frame :: "heap \<Rightarrow> addr \<Rightarrow> bool" where
  "closed_frame h fr \<longleftrightarrow>
     fr < next_addr h \<and> (\<forall>arr \<in> snd ` set (frames h fr). closed_array h arr)"

definition closed_state :: "heap \<Rightarrow> addr \<Rightarrow> bool" where
  "closed_state h st \<longleftrightarrow>
     st < next_addr h \<and> (\<forall>fr \<in> snd ` set (states h st). closed_frame h fr)"

text \<open>No annotation stored under the state object has the identifier.\<close>

definition uid_unused :: "heap \<Rightarrow> addr \<Rightarrow> string \<Rightarrow> bool" where
  "uid_unused h st uid \<longleftrightarrow>
     (\<forall>fr \<in> snd ` set (states h st). \<forall>arr \<in> snd ` set (frames h fr).
        \<forall>q \<in> set (arrays h arr). annotationUID (anns h q) \<noteq> uid)"

text \<open>
  Two heaps that hold the same objects at every address below \<open>n\<close>. A heap \<open>h'\<close>
  extends \<open>h\<close> when it has allocated more and left every object of \<open>h\<close> as it was. An
  object lies above \<open>lo\<close> when it and everything it refers to was allocated at or after
  \<open>lo\<close>.
\<close>

definition agree_below :: "addr \<Rightarrow> heap \<Rightarrow> heap \<Rightarrow> bool" where
  "agree_below n h h' \<longleftrightarrow>
     (\<forall>a < n. anns h' a = anns h a \<and> arrays h' a = arrays h a
              \<and> frames h' a = frames h a \<and> states h' a = states h a)"

definition extends :: "heap \<Rightarrow> heap \<Rightarrow> bool" where
  "extends h h' \<longleftrightarrow> next_addr h \<le> next_addr h' \<and> agree_below (next_addr h) h h'"

definition array_above :: "addr \<Rightarrow> heap \<Rightarrow> addr \<Rightarrow> bool" where
  "array_above lo h arr \<longleftrightarrow> lo \<le> arr \<and> (\<forall>p \<in> set (arrays h arr). lo \<le> p)"

definition frame_above :: "addr \<Rightarrow> heap \<Rightarrow> addr \<Rightarrow> bool" where
  "frame_above lo h fr \<longleftrightarrow> lo \<le> fr \<and> (\<forall>arr \<in> snd ` set (frames h fr). array_above lo h arr)"

definition state_above :: "addr \<Rightarrow> heap \<Rightarrow> addr \<Rightarrow> bool" where
  "state_above lo h st \<longleftrightarrow> lo \<le> st \<and> (\<forall>fr \<in> snd ` set (states h st). frame_above lo h fr)"

text \<open>
  \<open>only_changed h st h'\<close>: the heap \<open>h'\<close> is \<open>h\<close> after any number of writes to the objects
  that make up the value of \<open>st\<close>, and to nothing else.
\<close>

definition only_changed :: "heap \<Rightarrow> addr \<Rightarrow> heap \<Rightarrow> bool" where
  "only_changed h st h' \<longleftrightarrow>
     (\<forall>a. a \<noteq> st \<longrightarrow> states h' a = states h a)
     \<and> (\<forall>a. a \<notin> state_frames h st \<longrightarrow> frames h' a = frames h a)
     \<and> (\<forall>a. a \<notin> state_arrays h st \<longrightarrow> arrays h' a = arrays h a)
     \<and> (\<forall>a. a \<notin> state_anns h st \<longrightarrow> anns h' a = anns h a)"

section \<open>The contour drawing loop of the planar freehand tool\<close>

text \<open>
  The transient data of the tool instance (\<open>this.drawData\<close>, \<open>this.commonData\<close>,
  \<open>this.configuration\<close>) and the flags the loop sets. \<open>commonData.annotation\<close> is a
  reference to the annotation object being drawn, the same object the store holds.
\<close>

record DrawData =
  canvasPoints :: "point2 list"
  polylineIndex :: int

record CommonData =
  cd_annotation :: addr
  viewportIdsToRender :: "string list"
  spacing :: point2
  xDir :: point3
  yDir :: point3

record Configuration =
  subPixelResolution :: real
  allowOpenContours :: bool
  closeContourProximity :: real

text \<open>
  \<open>drawListeners\<close> says whether \<open>mouseUpDrawCallback\<close> and \<open>mouseDragDrawCallback\<close> are
  registered on the element; \<open>isInteractingWithTool\<close> is the flag of the global \<open>state\<close>;
  \<open>annotationCompleted\<close> lists the annotations for which the completion event was fired.
  \<open>isEditingClosed\<close> and \<open>editCanvasPoints\<close> belong to the closed contour edit loop.
\<close>

record tool =
  isDrawing :: bool
  drawData :: "DrawData option"
  commonData :: "CommonData option"
  configuration :: Configuration
  isInteractingWithTool :: bool
  drawListeners :: bool
  annotationCompleted :: "addr list"
  isEditingClosed :: bool
  editCanvasPoints :: "point2 list option"

record sys =
  sys_heap :: heap
  sys_annotations :: addr
  sys_tool :: tool

text \<open>The part of \<open>evt.detail\<close> the loop reads.\<close>

record evt_detail =
  currentPoints_world :: point3
  currentPoints_canvas :: point2
  lastPoints_canvas :: point2

text \<open>
  The collaborators of the loop that are not under \<open>src/\<close> are parameters: the viewport's
  coordinate maps, the polyline utilities and the peak vector search.
  \<open>getFirstIntersectionWithPolyline\<close> returns the pair of point indices of the first
  segment hit, or \<open>undefined\<close>. \<open>sampledPointsBetween\<close> gives the intermediate points
  the point insertion puts between the last buffer point and a new point.
\<close>

record draw_env =
  canvasToWorld :: "point2 \<Rightarrow> point3"
  worldToCanvas :: "point3 \<Rightarrow> point2"
  sampledPointsBetween :: "point2 list \<Rightarrow> point2 \<Rightarrow> CommonData \<Rightarrow> point2 list"
  getFirstIntersectionWithPolyline ::
    "point2 list \<Rightarrow> point2 \<Rightarrow> point2 \<Rightarrow> bool \<Rightarrow> (nat \<times> nat) option"
  pointsAreWithinCloseContourProximity :: "point2 \<Rightarrow> point2 \<Rightarrow> real \<Rightarrow> bool"
  getSubPixelSpacingAndXYDirections :: "real \<Rightarrow> point2 \<times> point3 \<times> point3"
  getSpacingAndXYDirections :: "real \<Rightarrow> point2 \<times> point3 \<times> point3"
  findOpenUShapedContourVectorToPeak :: "point2 list \<Rightarrow> point3 list"

text \<open>
  Modelled from the spec: \<open>addCanvasPointsToArray\<close> (polyline utilities) is not under
  \<open>src/\<close>. The spec's \<open>insertSampledPoints\<close> "inserts one or more intermediate points
  between the last recorded point and the new point" and "returns how many points were
  added"; its callers in the draw loop pop the last inserted point as the duplicate of the
  new point. So the array gets the intermediate points and then the new point itself; the
  interpolation rule is the parameter \<open>sampledPointsBetween\<close>.
\<close>

definition addCanvasPointsToArray ::
  "draw_env \<Rightarrow> point2 list \<Rightarrow> point2 \<Rightarrow> CommonData \<Rightarrow> point2 list \<times> int" where
  "addCanvasPointsToArray env pts newCanvasPoint cd =
     (let mid = sampledPointsBetween env pts newCanvasPoint cd
      in (pts @ mid @ [newCanvasPoint], int (length mid) + 1))"

text \<open>
  Modelled from the spec: \<open>removeAnnotation\<close> of \<open>annotationState\<close> is not under \<open>src/\<close>.
  The spec has the release "delete the shell annotation from the store"; it is the
  manager's \<open>removeAnnotation\<close> by identifier, without filter.
\<close>

definition annotationState_removeAnnotation :: "heap \<Rightarrow> addr \<Rightarrow> string \<Rightarrow> error + heap" where
  "annotationState_removeAnnotation h this_annotations uid =
     removeAnnotation h this_annotations uid no_filter"

text \<open>
  Modelled from the spec: \<open>activateClosedContourEdit\<close> (closed contour edit loop) is not
  under \<open>src/\<close>. The spec: it "seeds the transient buffer with the contour's current
  canvas-projected points and enters EditingClosed".
\<close>

definition activateClosedContourEdit :: "draw_env \<Rightarrow> addr \<Rightarrow> sys \<Rightarrow> sys" where
  "activateClosedContourEdit env p s =
     s\<lparr>sys_tool := (sys_tool s)
          \<lparr>isEditingClosed := True,
           editCanvasPoints := Some (map (worldToCanvas env) (data_polyline (anns (sys_heap s) p))),
           isInteractingWithTool := True\<rparr>\<rparr>"

text \<open>An array read \<open>xs[i]\<close>: \<open>undefined\<close> outside the array.\<close>

definition js_nth :: "'a list \<Rightarrow> int \<Rightarrow> 'a option" where
  "js_nth xs i = (if 0 \<le> i \<and> i < int (length xs) then Some (xs ! nat i) else None)"

definition activateDraw :: "draw_env \<Rightarrow> sys \<Rightarrow> evt_detail \<Rightarrow> addr \<Rightarrow> string list \<Rightarrow> sys" where
  "activateDraw env s evt p ids =
     (let (sp, xd, yd) =
            getSubPixelSpacingAndXYDirections env (subPixelResolution (configuration (sys_tool s)))
      in s\<lparr>sys_tool := (sys_tool s)
            \<lparr>isDrawing := True,
             drawData := Some \<lparr>canvasPoints = [currentPoints_canvas evt], polylineIndex = 0\<rparr>,
             commonData := Some \<lparr>cd_annotation = p, viewportIdsToRender = ids,
                                  spacing = sp, xDir = xd, yDir = yd\<rparr>,
             isInteractingWithTool := True,
             drawListeners := True\<rparr>\<rparr>)"

definition deactivateDraw :: "sys \<Rightarrow> sys" where
  "deactivateDraw s =
     s\<lparr>sys_tool := (sys_tool s)\<lparr>isInteractingWithTool := False, drawListeners := False\<rparr>\<rparr>"


text \<open>
  \<open>removeCrossedLinesOnCompleteDraw\<close>: \<open>canvasPoints.splice(0, n)\<close> returns the first
  \<open>n\<close> points, and they become the buffer.
\<close>

definition removeCrossedLinesOnCompleteDraw :: "draw_env \<Rightarrow> point2 list \<Rightarrow> point2 list" where
  "removeCrossedLinesOnCompleteDraw env pts =
     (let canvasPointsMinusEnds = tl (butlast pts)
      in case getFirstIntersectionWithPolyline env canvasPointsMinusEnds (hd pts) (last pts) False of
           None \<Rightarrow> pts
         | Some lineSegment \<Rightarrow> take (snd lineSegment) pts)"

text \<open>
  With \<open>this.drawData\<close> or \<open>this.commonData\<close> undefined the destructuring throws. With an
  empty buffer the source hands \<open>undefined\<close> points to the collaborators; the model stops
  there with the error as well.
\<close>

definition completeDrawClosedContour :: "draw_env \<Rightarrow> sys \<Rightarrow> error + sys" where
  "completeDrawClosedContour env s =
     (case (drawData (sys_tool s), commonData (sys_tool s)) of
        (Some dd, Some cd) \<Rightarrow>
          if canvasPoints dd = [] then Inl TypeError
          else
            (let pts = removeCrossedLinesOnCompleteDraw env (canvasPoints dd)
             in if pts = [] then Inl TypeError
                else
                  (let pts1 = fst (addCanvasPointsToArray env pts (hd pts) cd);
                       pts2 = butlast pts1;
                       worldPoints = map (canvasToWorld env) pts2;
                       p = cd_annotation cd;
                       h = sys_heap s;
                       h' = h\<lparr>anns := (anns h)
                                (p := (anns h p)\<lparr>data_polyline := worldPoints,
                                                  data_isOpenContour := Some False\<rparr>)\<rparr>
                   in Inr (deactivateDraw
                        (s\<lparr>sys_heap := h',
                           sys_tool := (sys_tool s)
                             \<lparr>annotationCompleted := annotationCompleted (sys_tool s) @ [p],
                              isDrawing := False, drawData := None, commonData := None\<rparr>\<rparr>))))
      | _ \<Rightarrow> Inl TypeError)"

definition completeDrawOpenContour :: "draw_env \<Rightarrow> sys \<Rightarrow> error + sys" where
  "completeDrawOpenContour env s =
     (case (drawData (sys_tool s), commonData (sys_tool s)) of
        (Some dd, Some cd) \<Rightarrow>
          (let pts = canvasPoints dd;
               worldPoints = map (canvasToWorld env) pts;
               p = cd_annotation cd;
               h = sys_heap s;
               a1 = (anns h p)
                      \<lparr>data_polyline := worldPoints,
                       data_isOpenContour := Some True,
                       data_handles_points :=
                         [js_nth worldPoints 0, js_nth worldPoints (int (length worldPoints) - 1)]\<rparr>;
               a2 = (if data_isOpenUShapeContour a1 = Some True
                     then a1\<lparr>data_openUShapeContourVectorToPeak :=
                               Some (findOpenUShapedContourVectorToPeak env pts)\<rparr>
                     else a1);
               h' = h\<lparr>anns := (anns h)(p := a2)\<rparr>
           in Inr (deactivateDraw
                (s\<lparr>sys_heap := h',
                   sys_tool := (sys_tool s)
                     \<lparr>annotationCompleted := annotationCompleted (sys_tool s) @ [p],
                      isDrawing := False, drawData := None, commonData := None\<rparr>\<rparr>)))
      | _ \<Rightarrow> Inl TypeError)"

definition findCrossingIndexDuringCreate :: "draw_env \<Rightarrow> point2 list \<Rightarrow> evt_detail \<Rightarrow> nat option" where
  "findCrossingIndexDuringCreate env pts evt =
     (let pointsLessLastOne = butlast pts
      in case getFirstIntersectionWithPolyline env pointsLessLastOne
                (currentPoints_canvas evt) (lastPoints_canvas evt) False of
           None \<Rightarrow> None
         | Some lineSegment \<Rightarrow> Some (fst lineSegment))"

text \<open>
  \<open>applyCreateOnCross\<close>: points are added from the end of the buffer to the point at the
  crossing index, the last of them is popped, and \<open>crossingIndex\<close> points are shifted off
  the front of the buffer. Then the contour is completed as closed and the closed contour
  edit is activated.
\<close>

definition applyCreateOnCross :: "draw_env \<Rightarrow> sys \<Rightarrow> evt_detail \<Rightarrow> nat \<Rightarrow> error + sys" where
  "applyCreateOnCross env s evt crossingIndex =
     (case (drawData (sys_tool s), commonData (sys_tool s)) of
        (Some dd, Some cd) \<Rightarrow>
          (case js_nth (canvasPoints dd) (int crossingIndex) of
             None \<Rightarrow> Inl TypeError
           | Some target \<Rightarrow>
               (let pts1 = fst (addCanvasPointsToArray env (canvasPoints dd) target cd);
                    pts2 = butlast pts1;
                    pts3 = drop crossingIndex pts2;
                    s1 = s\<lparr>sys_tool := (sys_tool s)\<lparr>drawData := Some (dd\<lparr>canvasPoints := pts3\<rparr>)\<rparr>\<rparr>
                in case completeDrawClosedContour env s1 of
                     Inl e \<Rightarrow> Inl e
                   | Inr s2 \<Rightarrow> Inr (activateClosedContourEdit env (cd_annotation cd) s2)))
      | _ \<Rightarrow> Inl TypeError)"

definition mouseDragDrawCallback :: "draw_env \<Rightarrow> sys \<Rightarrow> evt_detail \<Rightarrow> error + sys" where
  "mouseDragDrawCallback env s evt =
     (case (drawData (sys_tool s), commonData (sys_tool s)) of
        (Some dd, Some cd) \<Rightarrow>
          if canvasPoints dd = [] then Inl TypeError
          else
            (let lastCanvasPoint = last (canvasPoints dd);
                 lastWorldPoint = canvasToWorld env lastCanvasPoint;
                 worldPosDiff = vec3_subtract (currentPoints_world evt) lastWorldPoint;
                 xDist = Math_abs (vec3_dot worldPosDiff (xDir cd));
                 yDist = Math_abs (vec3_dot worldPosDiff (yDir cd))
             in if num_le xDist (fst (spacing cd)) \<and> num_le yDist (snd (spacing cd)) then Inr s
                else
                  (case findCrossingIndexDuringCreate env (canvasPoints dd) evt of
                     Some crossingIndex \<Rightarrow> applyCreateOnCross env s evt crossingIndex
                   | None \<Rightarrow>
                       (let (pts', numPointsAdded) =
                              addCanvasPointsToArray env (canvasPoints dd) (currentPoints_canvas evt) cd
                        in Inr (s\<lparr>sys_tool := (sys_tool s)
                                   \<lparr>drawData := Some \<lparr>canvasPoints = pts',
                                       polylineIndex = polylineIndex dd + numPointsAdded\<rparr>\<rparr>\<rparr>))))
      | _ \<Rightarrow> Inl TypeError)"

definition mouseUpDrawCallback :: "draw_env \<Rightarrow> sys \<Rightarrow> error + sys" where
  "mouseUpDrawCallback env s =
     (case drawData (sys_tool s) of
        None \<Rightarrow> Inl TypeError
      | Some dd \<Rightarrow>
          (let cfg = configuration (sys_tool s);
               pts = canvasPoints dd;
               minPoints = max (subPixelResolution cfg * 3) 3
           in if real (length pts) < minPoints then
                (case commonData (sys_tool s) of
                   None \<Rightarrow> Inl TypeError
                 | Some cd \<Rightarrow>
                     (case annotationState_removeAnnotation (sys_heap s) (sys_annotations s)
                             (annotationUID (anns (sys_heap s) (cd_annotation cd))) of
                        Inl e \<Rightarrow> Inl e
                      | Inr h' \<Rightarrow>
                          Inr (deactivateDraw
                                (s\<lparr>sys_heap := h',
                                   sys_tool := (sys_tool s)
                                     \<lparr>isDrawing := False, drawData := None, commonData := None\<rparr>\<rparr>))))
              else if allowOpenContours cfg
                      \<and> \<not> pointsAreWithinCloseContourProximity env (hd pts) (last pts)
                             (closeContourProximity cfg)
              then completeDrawOpenContour env s
              else completeDrawClosedContour env s))"



section \<open>Drawing sessions\<close>



definition sound_intersection :: "draw_env \<Rightarrow> bool" where
  "sound_intersection env \<longleftrightarrow>
     (\<forall>ps a b c i j. getFirstIntersectionWithPolyline env ps a b c = Some (i, j)
        \<longrightarrow> i < j \<and> j < length ps)"




section \<open>drawRect\<close>

text \<open>
  A JavaScript value as far as \<open>drawRect\<close> handles one, and a plain object as the list of
  its own properties. \<open>Object.assign\<close> writes the properties of the source over those of
  the target; reading a missing property gives \<open>undefined\<close>.
\<close>

datatype jsval = Undefined | Str string | Num real

type_synonym js_object = "(string \<times> jsval) list"

definition js_truthy :: "jsval \<Rightarrow> bool" where
  "js_truthy v = (case v of Undefined \<Rightarrow> False | Str s \<Rightarrow> s \<noteq> [] | Num r \<Rightarrow> r \<noteq> 0)"

definition Object_assign :: "js_object \<Rightarrow> js_object \<Rightarrow> js_object" where
  "Object_assign target source = fold (\<lambda>(k, v) t. AList.update k v t) source target"

definition js_prop :: "js_object \<Rightarrow> string \<Rightarrow> jsval" where
  "js_prop obj k = (case map_of obj k of None \<Rightarrow> Undefined | Some v \<Rightarrow> v)"

text \<open>
  The SVG drawing helper, the DOM and the three attribute helpers are not under \<open>src/\<close>;
  they are parameters acting on a state \<open>'s\<close> that holds the helper and the document.
  \<open>numberToString\<close> is the conversion a template literal applies to a number.
\<close>

record ('s, 'el) svg_env =
  getHash :: "string \<Rightarrow> string \<Rightarrow> string \<Rightarrow> string"
  getSvgNode :: "'s \<Rightarrow> string \<Rightarrow> 'el option"
  setNodeTouched :: "'s \<Rightarrow> string \<Rightarrow> 's"
  appendNode :: "'s \<Rightarrow> 'el \<Rightarrow> string \<Rightarrow> 's"
  createElementNS :: "'s \<Rightarrow> string \<Rightarrow> string \<Rightarrow> 'el \<times> 's"
  setAttributesIfNecessary :: "js_object \<Rightarrow> 'el \<Rightarrow> 's \<Rightarrow> 's"
  setNewAttributesIfValid :: "js_object \<Rightarrow> 'el \<Rightarrow> 's \<Rightarrow> 's"
  numberToString :: "real \<Rightarrow> string"

definition rect_defaults :: js_object where
  "rect_defaults = [(''color'', Str ''dodgerblue''), (''width'', Str ''2''),
                    (''lineWidth'', Undefined), (''lineDash'', Undefined)]"

text \<open>The \<open>attributes\<close> object that \<open>drawRect\<close> builds.\<close>

definition rect_attributes ::
  "('s, 'el) svg_env \<Rightarrow> point2 \<Rightarrow> point2 \<Rightarrow> js_object \<Rightarrow> js_object" where
  "rect_attributes env start end' options =
     (let merged = Object_assign rect_defaults options;
          color = js_prop merged ''color'';
          width' = js_prop merged ''width'';
          lineWidth = js_prop merged ''lineWidth'';
          lineDash = js_prop merged ''lineDash'';
          strokeWidth = (if js_truthy lineWidth then lineWidth else width');
          tlhc = (min (fst start) (fst end'), min (snd start) (snd end'));
          width = \<bar>fst start - fst end'\<bar>;
          height = \<bar>snd start - snd end'\<bar>
      in [(''x'', Str (numberToString env (fst tlhc))),
          (''y'', Str (numberToString env (snd tlhc))),
          (''width'', Str (numberToString env width)),
          (''height'', Str (numberToString env height)),
          (''stroke'', color),
          (''fill'', Str ''transparent''),
          (''stroke-width'', strokeWidth),
          (''stroke-dasharray'', lineDash)])"

definition drawRect ::
  "('s, 'el) svg_env \<Rightarrow> 's \<Rightarrow> string \<Rightarrow> string \<Rightarrow> point2 \<Rightarrow> point2 \<Rightarrow> js_object \<Rightarrow> 's" where
  "drawRect env svgDrawingHelper annotationUID' rectangleUID start end' options =
     (let svgns = ''http://www.w3.org/2000/svg'';
          svgNodeHash = getHash env annotationUID' ''rect'' rectangleUID;
          existingRect = getSvgNode env svgDrawingHelper svgNodeHash;
          attributes = rect_attributes env start end' options
      in case existingRect of
           Some el \<Rightarrow>
             setNodeTouched env (setAttributesIfNecessary env attributes el svgDrawingHelper)
               svgNodeHash
         | None \<Rightarrow>
             (let (svgRectElement, s1) = createElementNS env svgDrawingHelper svgns ''rect''
              in appendNode env (setNewAttributesIfValid env attributes svgRectElement s1)
                   svgRectElement svgNodeHash))"


section \<open>Collaborators of the draw loop, from the spec\<close>

text \<open>
  Modelled from the spec: \<open>getFirstIntersectionWithPolyline\<close> (polyline utilities) is not
  under \<open>src/\<close>. The spec's \<open>segmentsIntersect\<close> "returns the index of the first polyline
  segment that properly intersects the query segment, scanning in sequence order; returns
  none if no intersection". Two segments properly intersect when the end points of each
  lie strictly on opposite sides of the other. The draw loop only scans open polylines.
\<close>

definition orient :: "point2 \<Rightarrow> point2 \<Rightarrow> point2 \<Rightarrow> real" where
  "orient a b c = (fst b - fst a) * (snd c - snd a) - (snd b - snd a) * (fst c - fst a)"

definition properlyIntersect :: "point2 \<Rightarrow> point2 \<Rightarrow> point2 \<Rightarrow> point2 \<Rightarrow> bool" where
  "properlyIntersect p1 q1 p2 q2 =
     (orient p1 q1 p2 * orient p1 q1 q2 < 0 \<and> orient p2 q2 p1 * orient p2 q2 q1 < 0)"

fun segmentsIntersect_from :: "nat \<Rightarrow> point2 list \<Rightarrow> point2 \<Rightarrow> point2 \<Rightarrow> (nat \<times> nat) option" where
  "segmentsIntersect_from i (a # b # ps) p q =
     (if properlyIntersect p q a b then Some (i, Suc i)
      else segmentsIntersect_from (Suc i) (b # ps) p q)"
| "segmentsIntersect_from i ps p q = None"

definition segmentsIntersect :: "point2 list \<Rightarrow> point2 \<Rightarrow> point2 \<Rightarrow> bool \<Rightarrow> (nat \<times> nat) option" where
  "segmentsIntersect ps p q isClosed = segmentsIntersect_from 0 ps p q"

text \<open>
  Modelled from the spec: \<open>pointsAreWithinCloseContourProximity\<close> is not under \<open>src/\<close>; the
  spec's \<open>withinCloseProximity\<close> is a "Euclidean distance test", written here on squares.
\<close>

definition withinCloseProximity :: "point2 \<Rightarrow> point2 \<Rightarrow> real \<Rightarrow> bool" where
  "withinCloseProximity p q tol =
     ((fst p - fst q) * (fst p - fst q) + (snd p - snd q) * (snd p - snd q) < tol * tol)"

text \<open>
  A viewport that shows the plane \<open>z = 0\<close> at 1 mm per canvas pixel, with image spacing
  (1, 1): the sub-pixel spacing is \<open>1 / subPixelResolution\<close> on both axes. No intermediate
  points are inserted.
\<close>

definition plane_env :: draw_env where
  "plane_env =
     \<lparr>canvasToWorld = (\<lambda>c. (fst c, snd c, 0)),
      worldToCanvas = (\<lambda>w. (fst w, fst (snd w))),
      sampledPointsBetween = (\<lambda>pts p cd. []),
      getFirstIntersectionWithPolyline = segmentsIntersect,
      pointsAreWithinCloseContourProximity = withinCloseProximity,
      getSubPixelSpacingAndXYDirections = (\<lambda>r. ((1 / r, 1 / r), (1, 0, 0), (0, 1, 0))),
      getSpacingAndXYDirections = (\<lambda>r. ((1 / r, 1 / r), (1, 0, 0), (0, 1, 0))),
      findOpenUShapedContourVectorToPeak = (\<lambda>pts. [])\<rparr>"

section \<open>Concrete stores\<close>

definition ann0 :: annotation where
  "ann0 = \<lparr>annotationUID = ''a-1'', metadata_FrameOfReferenceUID = ''FoR-1'',
           metadata_toolName = ''PlanarFreehandROI'', invalidated = Some False,
           data_polyline = [], data_isOpenContour = None, data_handles_points = [],
           data_handles_activeHandleIndex = None,
           data_isOpenUShapeContour = None, data_openUShapeContourVectorToPeak = None\<rparr>"

definition mk_annotation :: "string \<Rightarrow> string \<Rightarrow> string \<Rightarrow> bool option \<Rightarrow> annotation" where
  "mk_annotation uid FoR tool flag =
     ann0\<lparr>annotationUID := uid, metadata_FrameOfReferenceUID := FoR, metadata_toolName := tool,
          invalidated := flag\<rparr>"

definition empty_heap :: heap where
  "empty_heap = \<lparr>anns = (\<lambda>_. ann0), arrays = (\<lambda>_. []), frames = (\<lambda>_. []),
                  states = (\<lambda>_. []), next_addr = 0\<rparr>"

text \<open>A fresh manager (state object at address 0) and one annotation object at address 1.\<close>

definition heap1 :: heap where
  "heap1 = fst (alloc_ann (fst (new_manager empty_heap)) ann0)"

text \<open>
  The same after \<open>addAnnotation\<close> of that object: the frame object is at address 2 and the
  array at address 3.
\<close>

definition heap2 :: heap where
  "heap2 = heap1\<lparr>arrays := (arrays heap1)(3 := [1]),
                  frames := (frames heap1)(2 := [(''PlanarFreehandROI'', 3)]),
                  states := (states heap1)(0 := [(''FoR-1'', 2)]),
                  next_addr := 4\<rparr>"

text \<open>
  A store with four annotations under \<open>FoR-1\<close>, three of them with \<open>invalidated = false\<close>
  and one with the flag undefined, and one annotation under \<open>FoR-2\<close>.
\<close>

definition heap3 :: heap where
  "heap3 =
     \<lparr>anns = (\<lambda>_. ann0)
        (1 := mk_annotation ''a-1'' ''FoR-1'' ''PlanarFreehandROI'' (Some False),
         2 := mk_annotation ''a-2'' ''FoR-1'' ''PlanarFreehandROI'' (Some False),
         3 := mk_annotation ''a-3'' ''FoR-1'' ''Length'' (Some False),
         4 := mk_annotation ''a-4'' ''FoR-1'' ''Length'' None,
         5 := mk_annotation ''a-5'' ''FoR-2'' ''Length'' (Some False)),
      arrays = (\<lambda>_. [])(6 := [1, 2], 7 := [3, 4], 8 := [5]),
      frames = (\<lambda>_. [])
        (9 := [(''PlanarFreehandROI'', 6), (''Length'', 7)], 10 := [(''Length'', 8)]),
      states = (\<lambda>_. [])(0 := [(''FoR-1'', 9), (''FoR-2'', 10)]),
      next_addr = 11\<rparr>"

text \<open>
  The store \<open>heap3\<close> and a new annotation object at address 11, for a tool that has no
  array under \<open>FoR-1\<close> yet.
\<close>

definition heap4 :: heap where
  "heap4 = fst (alloc_ann heap3 (mk_annotation ''a-6'' ''FoR-1'' ''Probe'' None))"

text \<open>
  The store \<open>heap3\<close> and a new annotation object at address 11, for a tool that has an
  array with two annotations under \<open>FoR-1\<close>.
\<close>

definition heap6 :: heap where
  "heap6 = fst (alloc_ann heap3 (mk_annotation ''a-6'' ''FoR-1'' ''Length'' None))"

text \<open>The same after \<open>addAnnotation\<close> of that object.\<close>

definition heap7 :: heap where
  "heap7 = heap6\<lparr>arrays := (arrays heap6)(7 := [3, 4, 11])\<rparr>"

text \<open>
  A fresh manager and, owned by a caller, the annotation object 1, the array 2 holding it
  and the frame object 3 holding the array.
\<close>

definition heap5 :: heap where
  "heap5 = fst (alloc_frame (fst (alloc_array heap1 [1])) [(''PlanarFreehandROI'', 2)])"

text \<open>
  A fresh manager, the annotation object 1 and an empty array at address 2, owned by a
  caller; then the store after \<open>restoreAnnotations\<close> of that array under \<open>FoR-1\<close> and
  \<open>PlanarFreehandROI\<close> (the frame object is at address 3), and after \<open>addAnnotation\<close> of the
  annotation object.
\<close>

definition heap8 :: heap where
  "heap8 = fst (alloc_array heap1 [])"

definition heap9 :: heap where
  "heap9 = heap8\<lparr>frames := (frames heap8)(3 := [(''PlanarFreehandROI'', 2)]),
                  states := (states heap8)(0 := [(''FoR-1'', 3)]),
                  next_addr := 4\<rparr>"

definition heap10 :: heap where
  "heap10 = heap9\<lparr>arrays := (arrays heap9)(2 := [1])\<rparr>"

section \<open>Concrete drawing sessions\<close>

text \<open>
  Configurations with sub-pixel resolution 4 (at least twelve points, spacing 0.25) and
  1 (at least three points, spacing 1).
\<close>

definition config4 :: Configuration where
  "config4 = \<lparr>subPixelResolution = 4, allowOpenContours = True, closeContourProximity = 10\<rparr>"


definition idle_tool :: tool where
  "idle_tool = \<lparr>isDrawing = False, drawData = None, commonData = None, configuration = config4,
                 isInteractingWithTool = False, drawListeners = False, annotationCompleted = [],
                 isEditingClosed = False, editCanvasPoints = None\<rparr>"

definition drag_to :: "point2 \<Rightarrow> point2 \<Rightarrow> evt_detail" where
  "drag_to prev pt =
     \<lparr>currentPoints_world = (fst pt, snd pt, 0), currentPoints_canvas = pt,
      lastPoints_canvas = prev\<rparr>"

text \<open>
  The shell annotation \<open>ann0\<close> is in the store (\<open>heap2\<close>) and a draw was started at the
  canvas point \<open>pt\<close>.
\<close>

definition drawing_at :: "point2 \<Rightarrow> sys" where
  "drawing_at pt =
     activateDraw plane_env \<lparr>sys_heap = heap2, sys_annotations = 0, sys_tool = idle_tool\<rparr>
       \<lparr>currentPoints_world = (fst pt, snd pt, 0), currentPoints_canvas = pt,
        lastPoints_canvas = pt\<rparr> 1 [''viewport-1'']"

text \<open>The same session with the buffer \<open>pts\<close>.\<close>

definition drawing_with :: "point2 list \<Rightarrow> sys" where
  "drawing_with pts =
     (let s = drawing_at (0, 0)
      in s\<lparr>sys_tool := (sys_tool s)
            \<lparr>drawData := Some \<lparr>canvasPoints = pts, polylineIndex = int (length pts) - 1\<rparr>\<rparr>\<rparr>)"

text \<open>
  The double nearest to 0.1, and a draw started at the origin with that number as the
  spacing on both axes.
\<close>

definition tenth :: real where
  "tenth = 3602879701896397 / 2 ^ 55"

definition drawing_tenth :: sys where
  "drawing_tenth =
     (let s = drawing_at (0, 0)
      in s\<lparr>sys_tool := (sys_tool s)
            \<lparr>commonData := Some \<lparr>cd_annotation = 1, viewportIdsToRender = [''viewport-1''],
                                  spacing = (tenth, tenth), xDir = (1, 0, 0), yDir = (0, 1, 0)\<rparr>\<rparr>\<rparr>)"

text \<open>A draw started for the new annotation object of \<open>heap6\<close> after it was added.\<close>

definition drawing6 :: sys where
  "drawing6 =
     activateDraw plane_env
       \<lparr>sys_heap = heap7, sys_annotations = 0, sys_tool = idle_tool\<rparr>
       (drag_to (0, 0) (0, 0)) 11 [''viewport-1'']"

text \<open>A draw started for the annotation object of \<open>heap10\<close>.\<close>

definition drawing10 :: sys where
  "drawing10 =
     activateDraw plane_env
       \<lparr>sys_heap = heap10, sys_annotations = 0, sys_tool = idle_tool\<rparr>
       (drag_to (0, 0) (0, 0)) 1 [''viewport-1'']"


text \<open>A state with another buffer, and the sequencing of callbacks that may throw.\<close>

definition with_buffer :: "sys \<Rightarrow> point2 list \<Rightarrow> int \<Rightarrow> sys" where
  "with_buffer s pts i =
     s\<lparr>sys_tool := (sys_tool s)\<lparr>drawData := Some \<lparr>canvasPoints = pts, polylineIndex = i\<rparr>\<rparr>\<rparr>"


text \<open>
  A gesture that runs down the y axis, turns right along the x axis, goes up and comes
  back to the left: the next move down from (2, 3) crosses the segment from (0, 0) to
  (4, 0), which has index 1.
\<close>

definition hook_path :: "point2 list" where
  "hook_path = [(0, 5), (0, 0), (4, 0), (4, 3), (2, 3)]"

text \<open>
  A gesture that runs along the x axis, goes up and comes back down to just above the
  x axis.
\<close>

definition slow_path :: "point2 list" where
  "slow_path = [(0, 0), (4, 0), (4, 3), (2, 1 / 8)]"

section \<open>Keys and reads of plain objects\<close>

lemma set_Object_keys [simp]: "set (Object_keys obj) = fst ` set obj"
  by (auto simp: Object_keys_def)

lemma length_Object_keys [simp]: "length (Object_keys obj) = length obj"
  using sum_length_filter_compl [of "is_array_index \<circ> fst" obj]
  by (simp add: Object_keys_def comp_def)

lemma Object_keys_no_index:
  "\<forall>k \<in> fst ` set obj. \<not> is_array_index k \<Longrightarrow> Object_keys obj = map fst obj"
  by (simp add: Object_keys_def filter_empty_conv)

lemma Object_keys_append_no_index:
  "\<not> is_array_index k \<Longrightarrow> Object_keys (obj @ [(k, v)]) = Object_keys obj @ [k]"
  by (simp add: Object_keys_def)

lemma Object_keys_without:
  "filter (\<lambda>g. g \<noteq> k) (Object_keys (obj @ [(k, v)])) = filter (\<lambda>g. g \<noteq> k) (Object_keys obj)"
  by (simp add: Object_keys_def filter_sort conj_commute)

lemma filter_absent: "k \<notin> set xs \<Longrightarrow> filter (\<lambda>g. g \<noteq> k) xs = xs"
  by (induction xs) auto

lemma js_get_Own: "js_get obj k = Own v \<longleftrightarrow> map_of obj k = Some v"
  by (simp add: js_get_def split: option.splits)

lemma js_get_found: "map_of obj k = Some v \<Longrightarrow> js_get obj k = Own v"
  by (simp add: js_get_def)

lemma js_get_absent:
  "map_of obj k = None \<Longrightarrow> k \<notin> set Object_prototype_names \<Longrightarrow> js_get obj k = Missing"
  by (simp add: js_get_def)

lemma js_get_Missing:
  "js_get obj k = Missing \<longleftrightarrow> map_of obj k = None \<and> k \<notin> set Object_prototype_names"
  by (simp add: js_get_def split: option.splits)

lemma js_get_Inherited:
  "js_get obj k = Inherited \<longleftrightarrow> map_of obj k = None \<and> k \<in> set Object_prototype_names"
  by (simp add: js_get_def split: option.splits)

section \<open>Lookups that miss\<close>

text \<open>
  C3. Code at the failing inputs: a filter naming a frame of reference that is not in the
  store makes \<open>getAnnotation\<close> and \<open>removeAnnotation\<close> throw a \<open>TypeError\<close>, and so does a
  filter naming a tool that has no array under an existing frame; a lookup without filter
  of an unknown identifier returns \<open>undefined\<close> and removes nothing.
\<close>

theorem lookup_miss_raises:
  "getAnnotation heap1 0 ''a-1'' \<lparr>filter_FrameOfReferenceUID = Some ''FoR-9'', filter_toolName = None\<rparr>
     = Inl TypeError
   \<and> removeAnnotation heap1 0 ''a-1'' \<lparr>filter_FrameOfReferenceUID = Some ''FoR-9'', filter_toolName = None\<rparr>
     = Inl TypeError
   \<and> getAnnotation heap2 0 ''a-1'' \<lparr>filter_FrameOfReferenceUID = Some ''FoR-1'', filter_toolName = Some ''Length''\<rparr>
     = Inl TypeError
   \<and> removeAnnotation heap2 0 ''a-1'' \<lparr>filter_FrameOfReferenceUID = Some ''FoR-1'', filter_toolName = Some ''Length''\<rparr>
     = Inl TypeError
   \<and> getAnnotation heap2 0 ''a-9'' no_filter = Inr None
   \<and> removeAnnotation heap2 0 ''a-9'' no_filter = Inr heap2"
  by (simp add: getAnnotation_def removeAnnotation_def getToolSpecificAnnotationsAndIndex_def
      heap2_def heap1_def new_manager_def alloc_state_def alloc_ann_def empty_heap_def ann0_def
      truthy_def no_filter_def js_get_def Object_prototype_names_def Object_keys_def
      is_array_index_def is_digit_def)

section \<open>The rectangle drawn by drawRect\<close>

lemma rect_attributes_swap:
  "rect_attributes env start end' options = rect_attributes env end' start options"
  by (simp add: rect_attributes_def min.commute abs_minus_commute)

text \<open>
  C10. For every pair of canvas points and every options object, \<open>drawRect\<close> does the same
  for (start, end) as for (end, start): the attributes object is the same, with \<open>x\<close> and
  \<open>y\<close> the component-wise minima of the two points and \<open>width\<close> and \<open>height\<close> the absolute
  coordinate differences, and so are the calls made on the drawing helper.
\<close>

theorem drawRect_corner_swap:
  "drawRect env svgDrawingHelper uid rectangleUID start end' options
     = drawRect env svgDrawingHelper uid rectangleUID end' start options
   \<and> rect_attributes env start end' options = rect_attributes env end' start options
   \<and> js_prop (rect_attributes env start end' options) ''x''
       = Str (numberToString env (min (fst start) (fst end')))
   \<and> js_prop (rect_attributes env start end' options) ''y''
       = Str (numberToString env (min (snd start) (snd end')))
   \<and> js_prop (rect_attributes env start end' options) ''width''
       = Str (numberToString env \<bar>fst start - fst end'\<bar>)
   \<and> js_prop (rect_attributes env start end' options) ''height''
       = Str (numberToString env \<bar>snd start - snd end'\<bar>)"
proof -
  have swap: "rect_attributes env start end' options = rect_attributes env end' start options"
    by (rule rect_attributes_swap)
  have draw: "drawRect env svgDrawingHelper uid rectangleUID start end' options
     = drawRect env svgDrawingHelper uid rectangleUID end' start options"
    unfolding drawRect_def swap ..
  have attrs: "js_prop (rect_attributes env start end' options) ''x''
       = Str (numberToString env (min (fst start) (fst end')))"
    "js_prop (rect_attributes env start end' options) ''y''
       = Str (numberToString env (min (snd start) (snd end')))"
    "js_prop (rect_attributes env start end' options) ''width''
       = Str (numberToString env \<bar>fst start - fst end'\<bar>)"
    "js_prop (rect_attributes env start end' options) ''height''
       = Str (numberToString env \<bar>snd start - snd end'\<bar>)"
    by (simp_all add: rect_attributes_def js_prop_def Let_def)
  from draw swap attrs show ?thesis by blast
qed

section \<open>Invalidation on a modified volume\<close>

lemma invalidate_one_frame [simp]:
  "arrays (invalidate_one h p) = arrays h"
  "frames (invalidate_one h p) = frames h"
  "states (invalidate_one h p) = states h"
  "next_addr (invalidate_one h p) = next_addr h"
  by (simp_all add: invalidate_one_def)

lemma invalidate_one_anns:
  "anns (invalidate_one h p) q =
     (if q = p \<and> invalidated (anns h p) \<noteq> None then (anns h p)\<lparr>invalidated := Some True\<rparr>
      else anns h q)"
  by (simp add: invalidate_one_def)

lemma fold_invalidate_frame [simp]:
  "arrays (fold (\<lambda>p h. invalidate_one h p) ps h) = arrays h"
  "frames (fold (\<lambda>p h. invalidate_one h p) ps h) = frames h"
  "states (fold (\<lambda>p h. invalidate_one h p) ps h) = states h"
  "next_addr (fold (\<lambda>p h. invalidate_one h p) ps h) = next_addr h"
  by (induction ps arbitrary: h) simp_all

lemma fold_invalidate_anns:
  "anns (fold (\<lambda>p h. invalidate_one h p) ps h) q =
     (if q \<in> set ps \<and> invalidated (anns h q) \<noteq> None then (anns h q)\<lparr>invalidated := Some True\<rparr>
      else anns h q)"
proof (induction ps arbitrary: h)
  case Nil
  show ?case by simp
next
  case (Cons p ps)
  show ?case
    by (auto simp add: Cons.IH invalidate_one_anns)
qed

lemma fold_tools_frame [simp]:
  "arrays (fold (\<lambda>tool h'. fold (\<lambda>p h''. invalidate_one h'' p)
                   (arrays h' (the (map_of (frames h' fr) tool))) h') tools h) = arrays h"
  "frames (fold (\<lambda>tool h'. fold (\<lambda>p h''. invalidate_one h'' p)
                   (arrays h' (the (map_of (frames h' fr) tool))) h') tools h) = frames h"
  "states (fold (\<lambda>tool h'. fold (\<lambda>p h''. invalidate_one h'' p)
                   (arrays h' (the (map_of (frames h' fr) tool))) h') tools h) = states h"
  "next_addr (fold (\<lambda>tool h'. fold (\<lambda>p h''. invalidate_one h'' p)
                   (arrays h' (the (map_of (frames h' fr) tool))) h') tools h) = next_addr h"
  by (induction tools arbitrary: h) simp_all

lemma fold_tools_anns:
  "anns (fold (\<lambda>tool h'. fold (\<lambda>p h''. invalidate_one h'' p)
                   (arrays h' (the (map_of (frames h' fr) tool))) h') tools h) q =
     (if q \<in> set (concat (map (\<lambda>tool. arrays h (the (map_of (frames h fr) tool))) tools))
         \<and> invalidated (anns h q) \<noteq> None
      then (anns h q)\<lparr>invalidated := Some True\<rparr>
      else anns h q)"
proof (induction tools arbitrary: h)
  case Nil
  show ?case by simp
next
  case (Cons t ts)
  show ?case
    by (auto simp add: Cons.IH fold_invalidate_anns)
qed

text \<open>
  C9. For every frame-of-reference UID, the handler sets \<open>invalidated = true\<close> on every
  annotation object stored under that frame, under every tool, whose flag is defined; an
  object whose flag is undefined keeps it undefined. Every annotation object that is not
  stored under that frame is unchanged, so annotations under other frames are, and the
  arrays and the frame and state objects are unchanged.
\<close>

theorem volume_modified_invalidates:
  "(\<forall>p \<in> set (annotations_under h this_annotations FoR).
      anns (imageVolumeModifiedHandler h this_annotations FoR) p =
        (if invalidated (anns h p) = None then anns h p
         else (anns h p)\<lparr>invalidated := Some True\<rparr>))
   \<and> (\<forall>p. p \<notin> set (annotations_under h this_annotations FoR) \<longrightarrow>
          anns (imageVolumeModifiedHandler h this_annotations FoR) p = anns h p)
   \<and> arrays (imageVolumeModifiedHandler h this_annotations FoR) = arrays h
   \<and> frames (imageVolumeModifiedHandler h this_annotations FoR) = frames h
   \<and> states (imageVolumeModifiedHandler h this_annotations FoR) = states h"
  by (cases "js_get (states h this_annotations) FoR")
    (auto simp add: imageVolumeModifiedHandler_def annotations_under_def fold_tools_anns)

lemma heap3_under: "annotations_under heap3 0 ''FoR-1'' = [1, 2, 3, 4]"
  by (simp add: annotations_under_def heap3_def js_get_def Object_keys_def is_array_index_def
      is_digit_def)

lemma heap3_under2: "annotations_under heap3 0 ''FoR-2'' = [5]"
  by (simp add: annotations_under_def heap3_def js_get_def Object_keys_def is_array_index_def
      is_digit_def)

lemma heap3_flags:
  "map (\<lambda>p. invalidated (anns heap3 p)) [1, 2, 3, 4, 5]
     = [Some False, Some False, Some False, None, Some False]"
  by (simp add: heap3_def mk_annotation_def)

text \<open>
  The three annotations under \<open>FoR-1\<close> with \<open>invalidated = false\<close> become invalidated,
  the one with the flag undefined and the one under \<open>FoR-2\<close> stay as they were.
\<close>

theorem volume_modified_witness:
  "annotations_under heap3 0 ''FoR-1'' = [1, 2, 3, 4]
   \<and> map (\<lambda>p. invalidated (anns heap3 p)) [1, 2, 3, 4, 5]
        = [Some False, Some False, Some False, None, Some False]
   \<and> map (\<lambda>p. invalidated (anns (imageVolumeModifiedHandler heap3 0 ''FoR-1'') p)) [1, 2, 3, 4]
        = [Some True, Some True, Some True, None]
   \<and> annotations_under heap3 0 ''FoR-2'' = [5]
   \<and> anns (imageVolumeModifiedHandler heap3 0 ''FoR-1'') 5 = anns heap3 5"
  using volume_modified_invalidates [of heap3 0 "''FoR-1''"] heap3_flags
  by (simp add: heap3_under heap3_under2)

section \<open>Searching the store\<close>

lemma findIndex_None: "findIndex P xs = None \<longleftrightarrow> (\<forall>x \<in> set xs. \<not> P x)"
  by (induction xs) auto

lemma map_of_key_Some:
  "k \<in> set (map fst d) \<Longrightarrow> \<exists>v. map_of d k = Some v \<and> (k, v) \<in> set d"
  by (induction d) auto

text \<open>
  A search without filter, when every array met is either free of the identifier or is the
  array \<open>x\<close>, in which the identifier is first found at index \<open>i\<close>.
\<close>

lemma search_tools_one:
  assumes "\<forall>k \<in> set ks. \<exists>arr. map_of d k = Some arr \<and>
             (findIndex (\<lambda>p. annotationUID (anns h p) = u) (arrays h arr) = None
              \<or> (arr = x \<and> findIndex (\<lambda>p. annotationUID (anns h p) = u) (arrays h arr) = Some i))"
  shows "search_tools h u d ks =
           (if \<exists>k \<in> set ks. map_of d k = Some x
                 \<and> findIndex (\<lambda>p. annotationUID (anns h p) = u) (arrays h x) = Some i
            then Inr (Some (x, i)) else Inr None)"
  using assms
proof (induction ks)
  case Nil
  show ?case by simp
next
  case (Cons k ks)
  from Cons.prems obtain arr where arr: "map_of d k = Some arr"
    and alt: "findIndex (\<lambda>p. annotationUID (anns h p) = u) (arrays h arr) = None
              \<or> (arr = x \<and> findIndex (\<lambda>p. annotationUID (anns h p) = u) (arrays h arr) = Some i)"
    by auto
  from Cons.prems have rest: "\<forall>k \<in> set ks. \<exists>arr. map_of d k = Some arr \<and>
             (findIndex (\<lambda>p. annotationUID (anns h p) = u) (arrays h arr) = None
              \<or> (arr = x \<and> findIndex (\<lambda>p. annotationUID (anns h p) = u) (arrays h arr) = Some i))"
    by simp
  note IH = Cons.IH [OF rest]
  note own = js_get_found [OF arr]
  from alt show ?case
  proof
    assume n: "findIndex (\<lambda>p. annotationUID (anns h p) = u) (arrays h arr) = None"
    then show ?thesis using arr own IH by auto
  next
    assume "arr = x \<and> findIndex (\<lambda>p. annotationUID (anns h p) = u) (arrays h arr) = Some i"
    then show ?thesis using arr own by auto
  qed
qed

lemma search_frames_one:
  assumes "\<forall>g \<in> set gs. \<exists>fr. map_of st g = Some fr \<and>
             (search_tools h u (frames h fr) (Object_keys (frames h fr)) = Inr None
              \<or> search_tools h u (frames h fr) (Object_keys (frames h fr)) = Inr (Some r))"
  shows "search_frames h u None st gs =
           (if \<exists>g \<in> set gs. \<exists>fr. map_of st g = Some fr
                 \<and> search_tools h u (frames h fr) (Object_keys (frames h fr)) = Inr (Some r)
            then Inr (Some r) else Inr None)"
  using assms
proof (induction gs)
  case Nil
  show ?case by simp
next
  case (Cons g gs)
  from Cons.prems obtain fr where fr: "map_of st g = Some fr"
    and alt: "search_tools h u (frames h fr) (Object_keys (frames h fr)) = Inr None
              \<or> search_tools h u (frames h fr) (Object_keys (frames h fr)) = Inr (Some r)"
    by auto
  from Cons.prems have rest: "\<forall>g \<in> set gs. \<exists>fr. map_of st g = Some fr \<and>
             (search_tools h u (frames h fr) (Object_keys (frames h fr)) = Inr None
              \<or> search_tools h u (frames h fr) (Object_keys (frames h fr)) = Inr (Some r))"
    by simp
  note IH = Cons.IH [OF rest]
  note own = js_get_found [OF fr]
  from alt show ?case
  proof
    assume "search_tools h u (frames h fr) (Object_keys (frames h fr)) = Inr None"
    then show ?thesis using fr own IH by (auto simp: truthy_def)
  next
    assume "search_tools h u (frames h fr) (Object_keys (frames h fr)) = Inr (Some r)"
    then show ?thesis using fr own by (auto simp: truthy_def)
  qed
qed

lemma search_finds_array:
  assumes others: "\<And>g fr k arr. (g, fr) \<in> set (states h st) \<Longrightarrow> (k, arr) \<in> set (frames h fr) \<Longrightarrow>
             arr = x \<or> findIndex (\<lambda>q. annotationUID (anns h q) = u) (arrays h arr) = None"
    and hit: "findIndex (\<lambda>q. annotationUID (anns h q) = u) (arrays h x) = Some i"
    and fr: "map_of (states h st) f = Some fx"
    and arr: "map_of (frames h fx) t = Some x"
  shows "getToolSpecificAnnotationsAndIndex h st u no_filter = Inr (Some (x, i))"
proof -
  let ?P = "\<lambda>q. annotationUID (anns h q) = u"
  have tools: "search_tools h u (frames h fr) (Object_keys (frames h fr)) =
           (if \<exists>k \<in> set (Object_keys (frames h fr)). map_of (frames h fr) k = Some x
                 \<and> findIndex ?P (arrays h x) = Some i
            then Inr (Some (x, i)) else Inr None)"
    if "(g, fr) \<in> set (states h st)" for g fr
  proof (rule search_tools_one, rule ballI)
    fix k assume "k \<in> set (Object_keys (frames h fr))"
    then have "k \<in> set (map fst (frames h fr))" by simp
    then obtain a where a: "map_of (frames h fr) k = Some a" "(k, a) \<in> set (frames h fr)"
      by (blast dest: map_of_key_Some)
    from others [OF that a(2)] hit a(1)
    show "\<exists>arr. map_of (frames h fr) k = Some arr \<and>
            (findIndex ?P (arrays h arr) = None \<or> (arr = x \<and> findIndex ?P (arrays h arr) = Some i))"
      by auto
  qed
  have frames: "search_frames h u None (states h st) (Object_keys (states h st)) =
           (if \<exists>g \<in> set (Object_keys (states h st)). \<exists>fr. map_of (states h st) g = Some fr
                 \<and> search_tools h u (frames h fr) (Object_keys (frames h fr)) = Inr (Some (x, i))
            then Inr (Some (x, i)) else Inr None)"
  proof (rule search_frames_one, rule ballI)
    fix g assume "g \<in> set (Object_keys (states h st))"
    then have "g \<in> set (map fst (states h st))" by simp
    then obtain fr where fr: "map_of (states h st) g = Some fr" "(g, fr) \<in> set (states h st)"
      by (blast dest: map_of_key_Some)
    from tools [OF fr(2)] fr(1)
    show "\<exists>fr. map_of (states h st) g = Some fr \<and>
            (search_tools h u (frames h fr) (Object_keys (frames h fr)) = Inr None
             \<or> search_tools h u (frames h fr) (Object_keys (frames h fr)) = Inr (Some (x, i)))"
      by auto
  qed
  from fr have fin: "(f, fx) \<in> set (states h st)" by (rule map_of_SomeD)
  from arr have tin: "(t, x) \<in> set (frames h fx)" by (rule map_of_SomeD)
  from tin have tk: "t \<in> set (Object_keys (frames h fx))" by force
  from fin have fk: "f \<in> set (Object_keys (states h st))" by force
  from tk arr hit have "\<exists>k \<in> set (Object_keys (frames h fx)). map_of (frames h fx) k = Some x
                 \<and> findIndex ?P (arrays h x) = Some i"
    by blast
  then have "search_tools h u (frames h fx) (Object_keys (frames h fx)) = Inr (Some (x, i))"
    using tools [OF fin] by simp
  with fr fk have "\<exists>g \<in> set (Object_keys (states h st)). \<exists>fr. map_of (states h st) g = Some fr
                 \<and> search_tools h u (frames h fr) (Object_keys (frames h fr)) = Inr (Some (x, i))"
    by blast
  with frames show ?thesis
    by (simp add: getToolSpecificAnnotationsAndIndex_def no_filter_def truthy_def)
qed

lemma old_bucket_free:
  assumes "uid_unused h st u" "(g, fr) \<in> set (states h st)" "(k, arr) \<in> set (frames h fr)"
  shows "findIndex (\<lambda>q. annotationUID (anns h q) = u) (arrays h arr) = None"
  using assms unfolding uid_unused_def findIndex_None by force

section \<open>Adding an annotation and removing it again\<close>

lemma update_absent: "map_of d k = None \<Longrightarrow> AList.update k v d = d @ [(k, v)]"
  by (induction d) (auto split: if_splits)

lemma delete_appended: "map_of d k = None \<Longrightarrow> AList.delete k (d @ [(k, v)]) = d"
  by (induction d) (auto simp: AList.delete_eq split: if_splits)

lemma addAnnotation_present:
  assumes "map_of (states h st) (metadata_FrameOfReferenceUID (anns h p)) = Some fr"
    and "map_of (frames h fr) (metadata_toolName (anns h p)) = None"
    and "metadata_toolName (anns h p) \<notin> set Object_prototype_names"
  shows "addAnnotation h st p =
           Inr (h\<lparr>arrays := (arrays h)(next_addr h := [p]),
                  frames := (frames h)(fr := frames h fr @ [(metadata_toolName (anns h p), next_addr h)]),
                  next_addr := Suc (next_addr h)\<rparr>)"
  using assms by (simp add: addAnnotation_def js_get_def alloc_array_def update_absent)

lemma addAnnotation_absent:
  assumes "map_of (states h st) (metadata_FrameOfReferenceUID (anns h p)) = None"
    and "metadata_FrameOfReferenceUID (anns h p) \<notin> set Object_prototype_names"
    and "metadata_toolName (anns h p) \<notin> set Object_prototype_names"
  shows "addAnnotation h st p =
           Inr (h\<lparr>arrays := (arrays h)(Suc (next_addr h) := [p]),
                  frames := (frames h)(next_addr h := [(metadata_toolName (anns h p), Suc (next_addr h))]),
                  states := (states h)
                    (st := states h st @ [(metadata_FrameOfReferenceUID (anns h p), next_addr h)]),
                  next_addr := Suc (Suc (next_addr h))\<rparr>)"
  using assms
  by (simp add: addAnnotation_def js_get_def alloc_array_def alloc_frame_def update_absent)

lemma addAnnotation_existing:
  assumes "map_of (states h st) (metadata_FrameOfReferenceUID (anns h p)) = Some fr"
    and "map_of (frames h fr) (metadata_toolName (anns h p)) = Some arr"
  shows "addAnnotation h st p = Inr (h\<lparr>arrays := (arrays h)(arr := arrays h arr @ [p])\<rparr>)"
  using assms by (simp add: addAnnotation_def js_get_def)

text \<open>
  The heap after \<open>addAnnotation\<close> and \<open>removeAnnotation\<close> of the same object: when the
  frame object existed, only the new (now empty, unreferenced) array is left behind; when
  the frame object was created by the add, it stays in the state object, empty.
\<close>

lemma add_remove_present:
  assumes unused: "uid_unused h st (annotationUID (anns h p))"
    and fr: "map_of (states h st) (metadata_FrameOfReferenceUID (anns h p)) = Some fr"
    and absent: "map_of (frames h fr) (metadata_toolName (anns h p)) = None"
  shows "removeAnnotation
           (h\<lparr>arrays := (arrays h)(next_addr h := [p]),
              frames := (frames h)(fr := frames h fr @ [(metadata_toolName (anns h p), next_addr h)]),
              next_addr := Suc (next_addr h)\<rparr>)
           st (annotationUID (anns h p)) no_filter =
           Inr (h\<lparr>arrays := (arrays h)(next_addr h := []), next_addr := Suc (next_addr h)\<rparr>)"
proof -
  let ?n = "next_addr h"
  let ?u = "annotationUID (anns h p)"
  let ?f = "metadata_FrameOfReferenceUID (anns h p)"
  let ?t = "metadata_toolName (anns h p)"
  define h1 where "h1 = h\<lparr>arrays := (arrays h)(?n := [p]),
             frames := (frames h)(fr := frames h fr @ [(?t, ?n)]),
             next_addr := Suc ?n\<rparr>"
  have others: "arr = ?n \<or> findIndex (\<lambda>q. annotationUID (anns h1 q) = ?u) (arrays h1 arr) = None"
    if g: "(g, fr') \<in> set (states h1 st)" and k: "(k, arr) \<in> set (frames h1 fr')" for g fr' k arr
  proof (cases "arr = ?n")
    case True
    then show ?thesis by simp
  next
    case False
    from g have g': "(g, fr') \<in> set (states h st)" by (simp add: h1_def)
    from k False have k': "(k, arr) \<in> set (frames h fr')"
      by (auto simp: h1_def split: if_splits)
    from old_bucket_free [OF unused g' k'] False show ?thesis
      by (simp add: h1_def)
  qed
  have hit: "findIndex (\<lambda>q. annotationUID (anns h1 q) = ?u) (arrays h1 ?n) = Some 0"
    by (simp add: h1_def)
  have fr1: "map_of (states h1 st) ?f = Some fr"
    using fr by (simp add: h1_def)
  have arr1: "map_of (frames h1 fr) ?t = Some ?n"
    using absent by (simp add: h1_def map_add_def)
  have found: "getToolSpecificAnnotationsAndIndex h1 st ?u no_filter = Inr (Some (?n, 0))"
    using others hit fr1 arr1 by (rule search_finds_array)
  have del: "AList.delete ?t (frames h fr @ [(?t, ?n)]) = frames h fr"
    using absent by (rule delete_appended)
  have cells: "arrays h1 ?n = [p]" "anns h1 p = anns h p" "frames h1 fr = frames h fr @ [(?t, ?n)]"
    by (simp_all add: h1_def)
  have "removeAnnotation h1 st ?u no_filter =
          Inr (h1\<lparr>arrays := (arrays h1)(?n := []), frames := (frames h1)(fr := frames h fr)\<rparr>)"
    using js_get_found [OF fr1] by (simp add: removeAnnotation_def found splice1_def cells del)
  also have "h1\<lparr>arrays := (arrays h1)(?n := []), frames := (frames h1)(fr := frames h fr)\<rparr> =
          h\<lparr>arrays := (arrays h)(?n := []), next_addr := Suc ?n\<rparr>"
    by (simp add: h1_def)
  finally show ?thesis by (simp add: h1_def)
qed

lemma add_remove_absent:
  assumes unused: "uid_unused h st (annotationUID (anns h p))"
    and absent: "map_of (states h st) (metadata_FrameOfReferenceUID (anns h p)) = None"
  shows "removeAnnotation
           (h\<lparr>arrays := (arrays h)(Suc (next_addr h) := [p]),
              frames := (frames h)(next_addr h := [(metadata_toolName (anns h p), Suc (next_addr h))]),
              states := (states h)
                (st := states h st @ [(metadata_FrameOfReferenceUID (anns h p), next_addr h)]),
              next_addr := Suc (Suc (next_addr h))\<rparr>)
           st (annotationUID (anns h p)) no_filter =
           Inr (h\<lparr>arrays := (arrays h)(Suc (next_addr h) := []),
                   frames := (frames h)(next_addr h := []),
                   states := (states h)
                     (st := states h st @ [(metadata_FrameOfReferenceUID (anns h p), next_addr h)]),
                   next_addr := Suc (Suc (next_addr h))\<rparr>)"
proof -
  let ?n = "next_addr h"
  let ?u = "annotationUID (anns h p)"
  let ?f = "metadata_FrameOfReferenceUID (anns h p)"
  let ?t = "metadata_toolName (anns h p)"
  define h1 where "h1 = h\<lparr>arrays := (arrays h)(Suc ?n := [p]),
             frames := (frames h)(?n := [(?t, Suc ?n)]),
             states := (states h)(st := states h st @ [(?f, ?n)]),
             next_addr := Suc (Suc ?n)\<rparr>"
  have others: "arr = Suc ?n \<or> findIndex (\<lambda>q. annotationUID (anns h1 q) = ?u) (arrays h1 arr) = None"
    if g: "(g, fr') \<in> set (states h1 st)" and k: "(k, arr) \<in> set (frames h1 fr')" for g fr' k arr
  proof (cases "arr = Suc ?n \<or> fr' = ?n")
    case True
    with k show ?thesis by (auto simp: h1_def)
  next
    case False
    from g False have g': "(g, fr') \<in> set (states h st)" by (auto simp: h1_def)
    from k False have k': "(k, arr) \<in> set (frames h fr')" by (auto simp: h1_def)
    from old_bucket_free [OF unused g' k'] False show ?thesis
      by (simp add: h1_def)
  qed
  have hit: "findIndex (\<lambda>q. annotationUID (anns h1 q) = ?u) (arrays h1 (Suc ?n)) = Some 0"
    by (simp add: h1_def)
  have fr1: "map_of (states h1 st) ?f = Some ?n"
    using absent by (simp add: h1_def map_add_def)
  have arr1: "map_of (frames h1 ?n) ?t = Some (Suc ?n)"
    by (simp add: h1_def)
  have found: "getToolSpecificAnnotationsAndIndex h1 st ?u no_filter = Inr (Some (Suc ?n, 0))"
    using others hit fr1 arr1 by (rule search_finds_array)
  have cells: "arrays h1 (Suc ?n) = [p]" "anns h1 p = anns h p" "frames h1 ?n = [(?t, Suc ?n)]"
    by (simp_all add: h1_def)
  have "removeAnnotation h1 st ?u no_filter =
          Inr (h1\<lparr>arrays := (arrays h1)(Suc ?n := []), frames := (frames h1)(?n := [])\<rparr>)"
    using js_get_found [OF fr1]
    by (simp add: removeAnnotation_def found splice1_def cells AList.delete_eq)
  also have "h1\<lparr>arrays := (arrays h1)(Suc ?n := []), frames := (frames h1)(?n := [])\<rparr> =
          h\<lparr>arrays := (arrays h)(Suc ?n := []), frames := (frames h)(?n := []),
            states := (states h)(st := states h st @ [(?f, ?n)]),
            next_addr := Suc (Suc ?n)\<rparr>"
    by (simp add: h1_def)
  finally show ?thesis by (simp add: h1_def)
qed

text \<open>
  Adding to an array that holds other annotations and removing again gives back the very
  same store: the array is spliced and, not being empty, stays.
\<close>

lemma findIndex_append_miss:
  "findIndex P xs = None \<Longrightarrow> P x \<Longrightarrow> findIndex P (xs @ [x]) = Some (length xs)"
  by (induction xs) (auto split: if_splits)

lemma add_remove_existing:
  assumes unused: "uid_unused h st (annotationUID (anns h p))"
    and fr: "map_of (states h st) (metadata_FrameOfReferenceUID (anns h p)) = Some fr"
    and arr: "map_of (frames h fr) (metadata_toolName (anns h p)) = Some arr"
    and nonempty: "arrays h arr \<noteq> []"
  shows "removeAnnotation (h\<lparr>arrays := (arrays h)(arr := arrays h arr @ [p])\<rparr>)
           st (annotationUID (anns h p)) no_filter = Inr h"
proof -
  let ?u = "annotationUID (anns h p)"
  let ?f = "metadata_FrameOfReferenceUID (anns h p)"
  let ?t = "metadata_toolName (anns h p)"
  define h1 where "h1 = h\<lparr>arrays := (arrays h)(arr := arrays h arr @ [p])\<rparr>"
  from fr have fin: "(?f, fr) \<in> set (states h st)" by (rule map_of_SomeD)
  from arr have tin: "(?t, arr) \<in> set (frames h fr)" by (rule map_of_SomeD)
  have others: "a = arr \<or> findIndex (\<lambda>q. annotationUID (anns h1 q) = ?u) (arrays h1 a) = None"
    if g: "(g, fr') \<in> set (states h1 st)" and k: "(k, a) \<in> set (frames h1 fr')" for g fr' k a
  proof (cases "a = arr")
    case True
    then show ?thesis by simp
  next
    case False
    from g have g': "(g, fr') \<in> set (states h st)" by (simp add: h1_def)
    from k have k': "(k, a) \<in> set (frames h fr')" by (simp add: h1_def)
    from old_bucket_free [OF unused g' k'] False show ?thesis
      by (simp add: h1_def)
  qed
  have "findIndex (\<lambda>q. annotationUID (anns h q) = ?u) (arrays h arr) = None"
    using unused fin tin by (rule old_bucket_free)
  then have hit: "findIndex (\<lambda>q. annotationUID (anns h1 q) = ?u) (arrays h1 arr)
                    = Some (length (arrays h arr))"
    by (simp add: h1_def findIndex_append_miss)
  have fr1: "map_of (states h1 st) ?f = Some fr" using fr by (simp add: h1_def)
  have arr1: "map_of (frames h1 fr) ?t = Some arr" using arr by (simp add: h1_def)
  have found: "getToolSpecificAnnotationsAndIndex h1 st ?u no_filter
                 = Inr (Some (arr, length (arrays h arr)))"
    using others hit fr1 arr1 by (rule search_finds_array)
  have cells: "arrays h1 arr = arrays h arr @ [p]" by (simp add: h1_def)
  have "removeAnnotation h1 st ?u no_filter = Inr (h1\<lparr>arrays := (arrays h1)(arr := arrays h arr)\<rparr>)"
    using nonempty by (simp add: removeAnnotation_def found splice1_def cells)
  also have "h1\<lparr>arrays := (arrays h1)(arr := arrays h arr)\<rparr> = h"
    by (simp add: h1_def)
  finally show ?thesis by (simp add: h1_def)
qed

lemma get_annotations_None:
  "get_annotations h st f t = None \<longleftrightarrow>
     map_of (states h st) f = None
     \<or> (\<exists>fr. map_of (states h st) f = Some fr \<and> map_of (frames h fr) t = None)"
  by (auto simp: get_annotations_def split: option.splits)

lemma unused_after_present:
  "uid_unused h st u \<Longrightarrow>
   uid_unused (h\<lparr>arrays := (arrays h)(n := []), next_addr := m\<rparr>) st u"
  unfolding uid_unused_def by auto

lemma unused_after_absent:
  "uid_unused h st u \<Longrightarrow>
   uid_unused (h\<lparr>arrays := (arrays h)(a := []), frames := (frames h)(n := []),
                 states := (states h)(st := states h st @ [(f, n)]), next_addr := m\<rparr>) st u"
  unfolding uid_unused_def by (auto split: if_splits)

text \<open>
  What \<open>getFramesOfReference\<close> lists after a key was created in the state object: the new
  key, and the other keys as before; the new key comes last unless it is an array index.
\<close>

lemma listed_after_new_key:
  assumes "states h' st = states h st @ [(f, n)]"
    and "map_of (states h st) f = None"
  shows "f \<in> set (getFramesOfReference h' st)"
    and "filter (\<lambda>g. g \<noteq> f) (getFramesOfReference h' st) = getFramesOfReference h st"
    and "length (getFramesOfReference h' st) = Suc (length (getFramesOfReference h st))"
    and "\<not> is_array_index f \<Longrightarrow> getFramesOfReference h' st = getFramesOfReference h st @ [f]"
proof -
  from assms(2) have "f \<notin> set (Object_keys (states h st))"
    by (simp add: map_of_eq_None_iff)
  then have "filter (\<lambda>g. g \<noteq> f) (Object_keys (states h st)) = Object_keys (states h st)"
    by (rule filter_absent)
  then show "filter (\<lambda>g. g \<noteq> f) (getFramesOfReference h' st) = getFramesOfReference h st"
    by (simp add: getFramesOfReference_def assms(1) Object_keys_without)
  show "f \<in> set (getFramesOfReference h' st)"
    by (simp add: getFramesOfReference_def assms(1))
  show "length (getFramesOfReference h' st) = Suc (length (getFramesOfReference h st))"
    by (simp add: getFramesOfReference_def assms(1))
  show "\<not> is_array_index f \<Longrightarrow> getFramesOfReference h' st = getFramesOfReference h st @ [f]"
    by (simp add: getFramesOfReference_def assms(1) Object_keys_append_no_index)
qed

section \<open>Observations are stable under changes elsewhere\<close>

lemma view_array_cong:
  assumes "arrays h' arr' = arrays h arr"
    and "\<And>p. p \<in> set (arrays h arr) \<Longrightarrow> anns h' p = anns h p"
  shows "view_array h' arr' = view_array h arr"
  using assms by (simp add: view_array_def)

lemma view_frame_cong:
  assumes "frames h' fr' = frames h fr"
    and "\<And>k arr. (k, arr) \<in> set (frames h fr) \<Longrightarrow> view_array h' arr = view_array h arr"
  shows "view_frame h' fr' = view_frame h fr"
  using assms by (auto simp: view_frame_def)

lemma view_state_cong:
  assumes "states h' st' = states h st"
    and "\<And>g fr. (g, fr) \<in> set (states h st) \<Longrightarrow> view_frame h' fr = view_frame h fr"
  shows "view_state h' st' = view_state h st"
  using assms by (auto simp: view_state_def)

lemma view_array_agree:
  assumes "agree_below (next_addr h) h h'" "closed_array h arr"
  shows "view_array h' arr = view_array h arr"
  using assms unfolding agree_below_def closed_array_def
  by (intro view_array_cong) auto

lemma view_frame_agree:
  assumes "agree_below (next_addr h) h h'" "closed_frame h fr"
  shows "view_frame h' fr = view_frame h fr"
proof (rule view_frame_cong)
  show "frames h' fr = frames h fr"
    using assms unfolding agree_below_def closed_frame_def by auto
next
  fix k arr assume "(k, arr) \<in> set (frames h fr)"
  with assms(2) have "closed_array h arr" unfolding closed_frame_def by force
  with assms(1) show "view_array h' arr = view_array h arr" by (rule view_array_agree)
qed

lemma view_state_agree:
  assumes "agree_below (next_addr h) h h'" "closed_state h st"
  shows "view_state h' st = view_state h st"
proof (rule view_state_cong)
  show "states h' st = states h st"
    using assms unfolding agree_below_def closed_state_def by auto
next
  fix g fr assume "(g, fr) \<in> set (states h st)"
  with assms(2) have "closed_frame h fr" unfolding closed_state_def by force
  with assms(1) show "view_frame h' fr = view_frame h fr" by (rule view_frame_agree)
qed

lemma view_after_present:
  assumes "closed_state h st"
  shows "view_state (h\<lparr>arrays := (arrays h)(next_addr h := xs), next_addr := m\<rparr>) st = view_state h st"
  using _ assms by (rule view_state_agree) (simp add: agree_below_def)

lemma view_after_absent:
  assumes "closed_state h st"
  shows "view_state (h\<lparr>arrays := (arrays h)(Suc (next_addr h) := []),
                   frames := (frames h)(next_addr h := []),
                   states := (states h)(st := states h st @ [(f, next_addr h)]),
                   next_addr := m\<rparr>) st = view_state h st @ [(f, [])]"
proof -
  let ?h' = "h\<lparr>arrays := (arrays h)(Suc (next_addr h) := []),
                   frames := (frames h)(next_addr h := []),
                   states := (states h)(st := states h st @ [(f, next_addr h)]),
                   next_addr := m\<rparr>"
  let ?h'' = "h\<lparr>arrays := (arrays h)(Suc (next_addr h) := []),
                   frames := (frames h)(next_addr h := []),
                   next_addr := m\<rparr>"
  have "view_state ?h' st = map (\<lambda>(FoR, fr). (FoR, view_frame ?h'' fr)) (states h st @ [(f, next_addr h)])"
    by (simp add: view_state_def view_frame_def view_array_def)
  also have "\<dots> = view_state ?h'' st @ [(f, [])]"
    by (simp add: view_state_def view_frame_def)
  also have "view_state ?h'' st = view_state h st"
    using _ assms by (rule view_state_agree) (simp add: agree_below_def)
  finally show ?thesis .
qed


section \<open>Facts about the concrete stores\<close>

lemma plain_names:
  "''FoR-1'' \<notin> set Object_prototype_names" "''PlanarFreehandROI'' \<notin> set Object_prototype_names"
  "''Length'' \<notin> set Object_prototype_names" "''Probe'' \<notin> set Object_prototype_names"
  "\<not> is_array_index ''FoR-1''" "\<not> is_array_index ''FoR-2''"
  by (simp_all add: Object_prototype_names_def is_array_index_def is_digit_def)

lemma heap1_cells:
  "anns heap1 1 = ann0" "anns heap1 (Suc 0) = ann0" "states heap1 0 = []" "next_addr heap1 = 2"
  by (simp_all add: heap1_def new_manager_def alloc_state_def alloc_ann_def empty_heap_def)

lemma heap1_unused: "uid_unused heap1 0 u"
  by (simp add: uid_unused_def heap1_cells)

lemma heap1_add: "addAnnotation heap1 0 1 = Inr heap2"
  using addAnnotation_absent [of heap1 0 1]
  by (simp add: heap1_cells heap2_def ann0_def plain_names)

lemma heap1_add_remove:
  "removeAnnotation heap2 0 ''a-1'' no_filter =
     Inr (heap1\<lparr>arrays := (arrays heap1)(3 := []), frames := (frames heap1)(2 := []),
                states := (states heap1)(0 := [(''FoR-1'', 2)]), next_addr := 4\<rparr>)"
  using add_remove_absent [of heap1 0 1, OF heap1_unused]
  by (simp add: heap1_cells heap2_def ann0_def)

lemma heap4_cells:
  "anns heap4 11 = mk_annotation ''a-6'' ''FoR-1'' ''Probe'' None"
  "states heap4 0 = [(''FoR-1'', 9), (''FoR-2'', 10)]"
  "frames heap4 9 = [(''PlanarFreehandROI'', 6), (''Length'', 7)]"
  "frames heap4 10 = [(''Length'', 8)]"
  "arrays heap4 6 = [1, 2]" "arrays heap4 7 = [3, 4]" "arrays heap4 8 = [5]"
  "map (\<lambda>p. annotationUID (anns heap4 p)) [1, 2, 3, 4, 5] = [''a-1'', ''a-2'', ''a-3'', ''a-4'', ''a-5'']"
  "next_addr heap4 = 12"
  by (simp_all add: heap4_def heap3_def alloc_ann_def mk_annotation_def)

lemma heap4_unused: "uid_unused heap4 0 ''a-6''"
  using heap4_cells(8) by (simp add: uid_unused_def heap4_cells)

lemma heap4_bucket: "get_annotations heap4 0 ''FoR-1'' ''Probe'' = None"
  by (simp add: get_annotations_def heap4_cells)

lemma heap4_listed: "getFramesOfReference heap4 0 = [''FoR-1'', ''FoR-2'']"
  by (simp add: getFramesOfReference_def heap4_cells Object_keys_no_index plain_names)

lemma heap6_cells:
  "anns heap6 11 = mk_annotation ''a-6'' ''FoR-1'' ''Length'' None"
  "states heap6 0 = [(''FoR-1'', 9), (''FoR-2'', 10)]"
  "frames heap6 9 = [(''PlanarFreehandROI'', 6), (''Length'', 7)]"
  "frames heap6 10 = [(''Length'', 8)]"
  "arrays heap6 6 = [1, 2]" "arrays heap6 7 = [3, 4]" "arrays heap6 8 = [5]"
  "map (\<lambda>p. annotationUID (anns heap6 p)) [1, 2, 3, 4, 5] = [''a-1'', ''a-2'', ''a-3'', ''a-4'', ''a-5'']"
  "next_addr heap6 = 12"
  by (simp_all add: heap6_def heap3_def alloc_ann_def mk_annotation_def)

lemma heap6_unused: "uid_unused heap6 0 ''a-6''"
  using heap6_cells(8) by (simp add: uid_unused_def heap6_cells)

lemma heap6_bucket: "get_annotations heap6 0 ''FoR-1'' ''Length'' = Some 7"
  by (simp add: get_annotations_def heap6_cells)

lemma heap6_closed: "closed_state heap6 0"
  by (simp add: closed_state_def closed_frame_def closed_array_def heap6_cells)

lemma heap6_listed: "getFramesOfReference heap6 0 = [''FoR-1'', ''FoR-2'']"
  by (simp add: getFramesOfReference_def heap6_cells Object_keys_no_index plain_names)

lemma heap6_add: "addAnnotation heap6 0 11 = Inr heap7"
  using addAnnotation_existing [of heap6 0 11 9 7]
  by (simp add: heap6_cells heap7_def mk_annotation_def)

lemma heap7_anns: "anns heap7 = anns heap6"
  by (simp add: heap7_def)

lemma heap9_cells:
  "anns heap9 1 = ann0" "anns heap9 (Suc 0) = ann0" "states heap9 0 = [(''FoR-1'', 3)]"
  "frames heap9 3 = [(''PlanarFreehandROI'', 2)]" "arrays heap9 2 = []" "next_addr heap9 = 4"
  by (simp_all add: heap9_def heap8_def alloc_array_def heap1_cells)

lemma heap8_restore:
  "restoreAnnotations heap8 0 2 (Some ''FoR-1'') (Some ''PlanarFreehandROI'') = (heap9, 0)"
  by (simp add: restoreAnnotations_def truthy_def heap9_def heap8_def alloc_array_def
      alloc_frame_def heap1_cells)

lemma heap9_add: "addAnnotation heap9 0 1 = Inr heap10"
  using addAnnotation_existing [of heap9 0 1 3 2]
  by (simp add: heap9_cells heap10_def ann0_def)

lemma heap10_remove:
  "removeAnnotation heap10 0 ''a-1'' no_filter =
     Inr (heap10\<lparr>arrays := (arrays heap10)(2 := []), frames := (frames heap10)(3 := [])\<rparr>)"
proof -
  have cells: "states heap10 0 = [(''FoR-1'', 3)]" "frames heap10 3 = [(''PlanarFreehandROI'', 2)]"
    "arrays heap10 2 = [1]" "anns heap10 (Suc 0) = ann0"
    by (simp_all add: heap10_def heap9_cells)
  have "getToolSpecificAnnotationsAndIndex heap10 0 ''a-1'' no_filter = Inr (Some (2, 0))"
    by (simp add: getToolSpecificAnnotationsAndIndex_def no_filter_def truthy_def cells
        Object_keys_def is_array_index_def is_digit_def js_get_def ann0_def)
  then show ?thesis
    by (simp add: removeAnnotation_def cells splice1_def ann0_def js_get_def)
qed

lemma drawing_at_fields:
  "sys_heap (drawing_at pt) = heap2"
  "sys_annotations (drawing_at pt) = 0"
  "drawData (sys_tool (drawing_at pt)) = Some \<lparr>canvasPoints = [pt], polylineIndex = 0\<rparr>"
  "commonData (sys_tool (drawing_at pt)) =
     Some \<lparr>cd_annotation = 1, viewportIdsToRender = [''viewport-1''],
           spacing = (1 / 4, 1 / 4), xDir = (1, 0, 0), yDir = (0, 1, 0)\<rparr>"
  "configuration (sys_tool (drawing_at pt)) = config4"
  "annotationCompleted (sys_tool (drawing_at pt)) = []"
  "isDrawing (sys_tool (drawing_at pt))"
  by (simp_all add: drawing_at_def activateDraw_def plane_env_def idle_tool_def config4_def)

lemma drawing6_fields:
  "sys_heap drawing6 = heap7"
  "sys_annotations drawing6 = 0"
  "drawData (sys_tool drawing6) = Some \<lparr>canvasPoints = [(0, 0)], polylineIndex = 0\<rparr>"
  "commonData (sys_tool drawing6) =
     Some \<lparr>cd_annotation = 11, viewportIdsToRender = [''viewport-1''],
           spacing = (1 / 4, 1 / 4), xDir = (1, 0, 0), yDir = (0, 1, 0)\<rparr>"
  "configuration (sys_tool drawing6) = config4"
  "annotationCompleted (sys_tool drawing6) = []"
  by (simp_all add: drawing6_def activateDraw_def plane_env_def idle_tool_def config4_def
      drag_to_def)

lemma drawing10_fields:
  "sys_heap drawing10 = heap10"
  "sys_annotations drawing10 = 0"
  "drawData (sys_tool drawing10) = Some \<lparr>canvasPoints = [(0, 0)], polylineIndex = 0\<rparr>"
  "commonData (sys_tool drawing10) =
     Some \<lparr>cd_annotation = 1, viewportIdsToRender = [''viewport-1''],
           spacing = (1 / 4, 1 / 4), xDir = (1, 0, 0), yDir = (0, 1, 0)\<rparr>"
  "configuration (sys_tool drawing10) = config4"
  by (simp_all add: drawing10_def activateDraw_def plane_env_def idle_tool_def config4_def
      drag_to_def)


section \<open>Removing the last annotation of a frame of reference\<close>

text \<open>
  C4, as amended. Take a store in which no annotation has the identifier of a given
  annotation object, whose frame-of-reference UID and tool name are not names of
  properties of \<open>Object.prototype\<close>, and in which the tool of that object has no array
  under its frame of reference, so that the object will be alone in its array.
  \<open>addAnnotation\<close> stores it, and \<open>removeAnnotation\<close> of the identifier then deletes the
  tool's array from the frame object but not the frame object: the frame-of-reference UID
  is in the output of \<open>getFramesOfReference\<close> after the removal, and the other UIDs are
  listed as before the add. If the UID was listed before the add, the output is the
  same; if not, it is one longer, and the UID comes last unless it is an array index.
\<close>

theorem add_then_remove_keeps_frame:
  assumes unused: "uid_unused h st (annotationUID (anns h p))"
    and plainF: "metadata_FrameOfReferenceUID (anns h p) \<notin> set Object_prototype_names"
    and plainT: "metadata_toolName (anns h p) \<notin> set Object_prototype_names"
    and bucket: "get_annotations h st (metadata_FrameOfReferenceUID (anns h p))
           (metadata_toolName (anns h p)) = None"
  shows "case addAnnotation h st p of
           Inl e \<Rightarrow> False
         | Inr h1 \<Rightarrow>
             (case get_annotations h1 st (metadata_FrameOfReferenceUID (anns h p))
                     (metadata_toolName (anns h p)) of
                None \<Rightarrow> False
              | Some arr \<Rightarrow> arrays h1 arr = [p])
             \<and> (case removeAnnotation h1 st (annotationUID (anns h p)) no_filter of
                  Inl e \<Rightarrow> False
                | Inr h' \<Rightarrow>
                    get_annotations h' st (metadata_FrameOfReferenceUID (anns h p))
                      (metadata_toolName (anns h p)) = None
                    \<and> metadata_FrameOfReferenceUID (anns h p) \<in> set (getFramesOfReference h' st)
                    \<and> filter (\<lambda>g. g \<noteq> metadata_FrameOfReferenceUID (anns h p))
                          (getFramesOfReference h' st)
                        = filter (\<lambda>g. g \<noteq> metadata_FrameOfReferenceUID (anns h p))
                            (getFramesOfReference h st)
                    \<and> (if metadata_FrameOfReferenceUID (anns h p) \<in> set (getFramesOfReference h st)
                        then getFramesOfReference h' st = getFramesOfReference h st
                        else length (getFramesOfReference h' st)
                               = Suc (length (getFramesOfReference h st))
                             \<and> (\<not> is_array_index (metadata_FrameOfReferenceUID (anns h p))
                                \<longrightarrow> getFramesOfReference h' st
                                     = getFramesOfReference h st
                                         @ [metadata_FrameOfReferenceUID (anns h p)])))"
proof (cases "map_of (states h st) (metadata_FrameOfReferenceUID (anns h p))")
  case None
  let ?f = "metadata_FrameOfReferenceUID (anns h p)"
  let ?h' = "h\<lparr>arrays := (arrays h)(Suc (next_addr h) := []),
                frames := (frames h)(next_addr h := []),
                states := (states h)(st := states h st @ [(?f, next_addr h)]),
                next_addr := Suc (Suc (next_addr h))\<rparr>"
  from None have notin: "?f \<notin> set (getFramesOfReference h st)"
    by (simp add: getFramesOfReference_def map_of_eq_None_iff)
  have st': "states ?h' st = states h st @ [(?f, next_addr h)]" by simp
  note listed = listed_after_new_key [OF st' None]
  have others: "filter (\<lambda>g. g \<noteq> ?f) (getFramesOfReference ?h' st)
                  = filter (\<lambda>g. g \<noteq> ?f) (getFramesOfReference h st)"
    using listed(2) notin by (simp add: filter_absent)
  have gone: "get_annotations ?h' st ?f (metadata_toolName (anns h p)) = None"
    using None by (simp add: get_annotations_def map_add_def)
  show ?thesis
    using notin listed(1,3,4) others gone None
    by (simp add: addAnnotation_absent [OF None plainF plainT]
        add_remove_absent [OF unused None] get_annotations_def map_add_def)
next
  case (Some fr)
  let ?f = "metadata_FrameOfReferenceUID (anns h p)"
  from Some bucket have absent: "map_of (frames h fr) (metadata_toolName (anns h p)) = None"
    by (simp add: get_annotations_def)
  from Some have isin: "?f \<in> set (getFramesOfReference h st)"
    by (force simp: getFramesOfReference_def dest: map_of_SomeD)
  show ?thesis
    using Some absent isin
    by (simp add: addAnnotation_present [OF Some absent plainT]
        add_remove_present [OF unused Some absent] get_annotations_def
        getFramesOfReference_def map_add_def)
qed

text \<open>The instance with the store \<open>heap4\<close>, where \<open>FoR-1\<close> holds other annotations.\<close>

theorem add_then_remove_witness:
  "uid_unused heap4 0 ''a-6''
   \<and> get_annotations heap4 0 ''FoR-1'' ''Probe'' = None
   \<and> getFramesOfReference heap4 0 = [''FoR-1'', ''FoR-2'']
   \<and> (case addAnnotation heap4 0 11 of
         Inl e \<Rightarrow> False
       | Inr h1 \<Rightarrow>
           (case get_annotations h1 0 ''FoR-1'' ''Probe'' of
              None \<Rightarrow> False
            | Some arr \<Rightarrow> arrays h1 arr = [11])
           \<and> (case removeAnnotation h1 0 ''a-6'' no_filter of
                Inl e \<Rightarrow> False
              | Inr h' \<Rightarrow> get_annotations h' 0 ''FoR-1'' ''Probe'' = None
                          \<and> getFramesOfReference h' 0 = [''FoR-1'', ''FoR-2'']))"
  using add_then_remove_keeps_frame [of heap4 0 11] heap4_unused heap4_bucket
  by (auto simp add: heap4_cells heap4_listed mk_annotation_def plain_names split: sum.splits)

text \<open>
  C4 as stated fails: in a fresh manager, after adding the annotation \<open>a-1\<close>, the only one
  under \<open>FoR-1\<close>, and removing it, \<open>getFramesOfReference\<close> returns \<open>FoR-1\<close>, which it did
  not before.
\<close>

theorem add_then_remove_counterexample:
  "getFramesOfReference heap1 0 = []
   \<and> addAnnotation heap1 0 1 = Inr heap2
   \<and> annotationUID (anns heap1 1) = ''a-1''
   \<and> metadata_FrameOfReferenceUID (anns heap1 1) = ''FoR-1''
   \<and> view_state heap2 0 = [(''FoR-1'', [(''PlanarFreehandROI'', [ann0])])]
   \<and> (case removeAnnotation heap2 0 ''a-1'' no_filter of
         Inl e \<Rightarrow> False
       | Inr h' \<Rightarrow> getFramesOfReference h' 0 = [''FoR-1''])"
proof (intro conjI)
  show "getFramesOfReference heap1 0 = []"
    by (simp add: getFramesOfReference_def heap1_cells Object_keys_def)
  show "addAnnotation heap1 0 1 = Inr heap2"
    by (rule heap1_add)
  show "annotationUID (anns heap1 1) = ''a-1''"
    and "metadata_FrameOfReferenceUID (anns heap1 1) = ''FoR-1''"
    by (simp_all add: heap1_cells ann0_def)
  show "view_state heap2 0 = [(''FoR-1'', [(''PlanarFreehandROI'', [ann0])])]"
    by (simp add: view_state_def view_frame_def view_array_def heap2_def heap1_cells)
  show "case removeAnnotation heap2 0 ''a-1'' no_filter of
         Inl e \<Rightarrow> False
       | Inr h' \<Rightarrow> getFramesOfReference h' 0 = [''FoR-1'']"
    by (simp add: heap1_add_remove getFramesOfReference_def Object_keys_no_index plain_names)
qed

section \<open>Releasing a gesture that is too short\<close>

text \<open>
  C2, as amended. Take a release during drawing whose buffer holds fewer than
  \<open>max(3, subPixelResolution * 3)\<close> points, where the shell annotation was added to a
  closed store that had no annotation with its identifier and no empty array for its tool
  under its frame of reference, and where the frame-of-reference UID and the tool name of
  the shell are not names of properties of \<open>Object.prototype\<close>. The callback returns, the
  drawing state is left, no completion event is fired and no annotation object is changed,
  and the shell is no longer in the store. If the frame of reference of the shell was a
  key of the store before the shell was added, the nested content of the store and the
  output of \<open>getFramesOfReference\<close> are what they were then. Otherwise the frame of
  reference that the add created stays, with no tools: \<open>getFramesOfReference\<close> lists it,
  and the other UIDs as before, so its output is one longer, and the UID comes last
  unless it is an array index.
\<close>

theorem short_gesture_aborts:
  assumes closed: "closed_state h st"
    and unused: "uid_unused h st (annotationUID (anns h p))"
    and plainF: "metadata_FrameOfReferenceUID (anns h p) \<notin> set Object_prototype_names"
    and plainT: "metadata_toolName (anns h p) \<notin> set Object_prototype_names"
    and bucket: "\<forall>arr. get_annotations h st (metadata_FrameOfReferenceUID (anns h p))
                   (metadata_toolName (anns h p)) = Some arr \<longrightarrow> arrays h arr \<noteq> []"
    and added: "addAnnotation h st p = Inr (sys_heap s)"
    and root: "sys_annotations s = st"
    and dd: "drawData (sys_tool s) = Some dd"
    and cd: "commonData (sys_tool s) = Some cd"
    and ann: "cd_annotation cd = p"
    and short: "real (length (canvasPoints dd))
                  < max (subPixelResolution (configuration (sys_tool s)) * 3) 3"
  shows "case mouseUpDrawCallback env s of
           Inl e \<Rightarrow> False
         | Inr s' \<Rightarrow>
             \<not> isDrawing (sys_tool s') \<and> drawData (sys_tool s') = None
             \<and> commonData (sys_tool s') = None
             \<and> \<not> isInteractingWithTool (sys_tool s') \<and> \<not> drawListeners (sys_tool s')
             \<and> annotationCompleted (sys_tool s') = annotationCompleted (sys_tool s)
             \<and> anns (sys_heap s') = anns h
             \<and> uid_unused (sys_heap s') st (annotationUID (anns h p))
             \<and> view_state (sys_heap s') st =
                 (if metadata_FrameOfReferenceUID (anns h p) \<in> set (getFramesOfReference h st)
                  then view_state h st
                  else view_state h st @ [(metadata_FrameOfReferenceUID (anns h p), [])])
             \<and> metadata_FrameOfReferenceUID (anns h p) \<in> set (getFramesOfReference (sys_heap s') st)
             \<and> filter (\<lambda>g. g \<noteq> metadata_FrameOfReferenceUID (anns h p))
                   (getFramesOfReference (sys_heap s') st)
                 = filter (\<lambda>g. g \<noteq> metadata_FrameOfReferenceUID (anns h p))
                     (getFramesOfReference h st)
             \<and> (if metadata_FrameOfReferenceUID (anns h p) \<in> set (getFramesOfReference h st)
                 then getFramesOfReference (sys_heap s') st = getFramesOfReference h st
                 else length (getFramesOfReference (sys_heap s') st)
                        = Suc (length (getFramesOfReference h st))
                      \<and> (\<not> is_array_index (metadata_FrameOfReferenceUID (anns h p))
                         \<longrightarrow> getFramesOfReference (sys_heap s') st
                              = getFramesOfReference h st
                                  @ [metadata_FrameOfReferenceUID (anns h p)]))"
proof (cases "map_of (states h st) (metadata_FrameOfReferenceUID (anns h p))")
  case None
  let ?f = "metadata_FrameOfReferenceUID (anns h p)"
  let ?h' = "h\<lparr>arrays := (arrays h)(Suc (next_addr h) := []),
                frames := (frames h)(next_addr h := []),
                states := (states h)(st := states h st @ [(?f, next_addr h)]),
                next_addr := Suc (Suc (next_addr h))\<rparr>"
  from None have notin: "?f \<notin> set (getFramesOfReference h st)"
    by (simp add: getFramesOfReference_def map_of_eq_None_iff)
  from added have heap: "sys_heap s =
      h\<lparr>arrays := (arrays h)(Suc (next_addr h) := [p]),
        frames := (frames h)(next_addr h := [(metadata_toolName (anns h p), Suc (next_addr h))]),
        states := (states h)(st := states h st @ [(?f, next_addr h)]),
        next_addr := Suc (Suc (next_addr h))\<rparr>"
    by (simp add: addAnnotation_absent [OF None plainF plainT])
  have st': "states ?h' st = states h st @ [(?f, next_addr h)]" by simp
  note listed = listed_after_new_key [OF st' None]
  have others: "filter (\<lambda>g. g \<noteq> ?f) (getFramesOfReference ?h' st)
                  = filter (\<lambda>g. g \<noteq> ?f) (getFramesOfReference h st)"
    using listed(2) notin by (simp add: filter_absent)
  have rem: "removeAnnotation (sys_heap s) st (annotationUID (anns h p)) no_filter = Inr ?h'"
    unfolding heap by (rule add_remove_absent [OF unused None])
  have uid: "annotationUID (anns (sys_heap s) p) = annotationUID (anns h p)"
    by (simp add: heap)
  show ?thesis
    using notin dd cd short unused_after_absent [OF unused] view_after_absent [OF closed]
      listed(1,3,4) others
    by (simp add: mouseUpDrawCallback_def annotationState_removeAnnotation_def root ann uid rem
        deactivateDraw_def)
next
  case (Some fr)
  let ?f = "metadata_FrameOfReferenceUID (anns h p)"
  from Some have isin: "?f \<in> set (getFramesOfReference h st)"
    by (force simp: getFramesOfReference_def dest: map_of_SomeD)
  show ?thesis
  proof (cases "map_of (frames h fr) (metadata_toolName (anns h p))")
    case None
    let ?h' = "h\<lparr>arrays := (arrays h)(next_addr h := []), next_addr := Suc (next_addr h)\<rparr>"
    from added have heap: "sys_heap s =
        h\<lparr>arrays := (arrays h)(next_addr h := [p]),
          frames := (frames h)(fr := frames h fr @ [(metadata_toolName (anns h p), next_addr h)]),
          next_addr := Suc (next_addr h)\<rparr>"
      by (simp add: addAnnotation_present [OF Some None plainT])
    have rem: "removeAnnotation (sys_heap s) st (annotationUID (anns h p)) no_filter = Inr ?h'"
      unfolding heap by (rule add_remove_present [OF unused Some None])
    have uid: "annotationUID (anns (sys_heap s) p) = annotationUID (anns h p)"
      by (simp add: heap)
    have same: "getFramesOfReference ?h' st = getFramesOfReference h st"
      by (simp add: getFramesOfReference_def)
    show ?thesis
      using isin dd cd short unused_after_present [OF unused] view_after_present [OF closed] same
      by (simp add: mouseUpDrawCallback_def annotationState_removeAnnotation_def root ann uid rem
          deactivateDraw_def)
  next
    case (Some arr)
    note fr = \<open>map_of (states h st) ?f = Some fr\<close>
    from fr Some bucket have nonempty: "arrays h arr \<noteq> []"
      by (simp add: get_annotations_def)
    from added have heap: "sys_heap s = h\<lparr>arrays := (arrays h)(arr := arrays h arr @ [p])\<rparr>"
      by (simp add: addAnnotation_existing [OF fr Some])
    have rem: "removeAnnotation (sys_heap s) st (annotationUID (anns h p)) no_filter = Inr h"
      unfolding heap by (rule add_remove_existing [OF unused fr Some nonempty])
    have uid: "annotationUID (anns (sys_heap s) p) = annotationUID (anns h p)"
      by (simp add: heap)
    show ?thesis
      using isin dd cd short unused
      by (simp add: mouseUpDrawCallback_def annotationState_removeAnnotation_def root ann uid rem
          deactivateDraw_def)
  qed
qed

text \<open>
  The instance with the store \<open>heap6\<close>, where the tool holds two other annotations: the
  content after the abort is the content before.
\<close>

theorem short_gesture_witness:
  "closed_state heap6 0
   \<and> uid_unused heap6 0 ''a-6''
   \<and> get_annotations heap6 0 ''FoR-1'' ''Length'' = Some 7 \<and> arrays heap6 7 = [3, 4]
   \<and> addAnnotation heap6 0 11 = Inr (sys_heap drawing6)
   \<and> drawData (sys_tool drawing6) = Some \<lparr>canvasPoints = [(0, 0)], polylineIndex = 0\<rparr>
   \<and> getFramesOfReference heap6 0 = [''FoR-1'', ''FoR-2'']
   \<and> (case mouseUpDrawCallback plane_env drawing6 of
         Inl e \<Rightarrow> False
       | Inr s' \<Rightarrow>
           \<not> isDrawing (sys_tool s') \<and> drawData (sys_tool s') = None
           \<and> annotationCompleted (sys_tool s') = []
           \<and> uid_unused (sys_heap s') 0 ''a-6''
           \<and> view_state (sys_heap s') 0 = view_state heap6 0
           \<and> getFramesOfReference (sys_heap s') 0 = [''FoR-1'', ''FoR-2''])"
  using short_gesture_aborts [of heap6 0 11 drawing6
      "\<lparr>canvasPoints = [(0, 0)], polylineIndex = 0\<rparr>"
      "\<lparr>cd_annotation = 11, viewportIdsToRender = [''viewport-1''],
           spacing = (1 / 4, 1 / 4), xDir = (1, 0, 0), yDir = (0, 1, 0)\<rparr>" plane_env]
    heap6_closed heap6_unused heap6_bucket heap6_add
  by (simp add: heap6_cells heap6_listed mk_annotation_def drawing6_fields config4_def
      plain_names split: sum.splits)

text \<open>
  C2 as stated fails in two ways. A fresh manager lists no frame of reference; after the
  shell was added, a draw started and released with one point in the buffer, it lists
  \<open>FoR-1\<close>. And in the store that \<open>restoreAnnotations\<close> of an empty array under \<open>FoR-1\<close> and
  \<open>PlanarFreehandROI\<close> leaves, the same draw takes the array of the tool out of the store.
\<close>

theorem short_gesture_counterexample:
  "getFramesOfReference heap1 0 = []
   \<and> view_state heap1 0 = []
   \<and> addAnnotation heap1 0 1 = Inr (sys_heap (drawing_at (0, 0)))
   \<and> drawData (sys_tool (drawing_at (0, 0))) = Some \<lparr>canvasPoints = [(0, 0)], polylineIndex = 0\<rparr>
   \<and> subPixelResolution (configuration (sys_tool (drawing_at (0, 0)))) = 4
   \<and> (case mouseUpDrawCallback plane_env (drawing_at (0, 0)) of
         Inl e \<Rightarrow> False
       | Inr s' \<Rightarrow> getFramesOfReference (sys_heap s') 0 = [''FoR-1'']
                   \<and> view_state (sys_heap s') 0 = [(''FoR-1'', [])])
   \<and> restoreAnnotations heap8 0 2 (Some ''FoR-1'') (Some ''PlanarFreehandROI'') = (heap9, 0)
   \<and> arrays heap8 2 = []
   \<and> view_state heap9 0 = [(''FoR-1'', [(''PlanarFreehandROI'', [])])]
   \<and> addAnnotation heap9 0 1 = Inr (sys_heap drawing10)
   \<and> drawData (sys_tool drawing10) = Some \<lparr>canvasPoints = [(0, 0)], polylineIndex = 0\<rparr>
   \<and> subPixelResolution (configuration (sys_tool drawing10)) = 4
   \<and> (case mouseUpDrawCallback plane_env drawing10 of
         Inl e \<Rightarrow> False
       | Inr s' \<Rightarrow> view_state (sys_heap s') 0 = [(''FoR-1'', [])])"
proof (intro conjI)
  show "getFramesOfReference heap1 0 = []"
    by (simp add: getFramesOfReference_def heap1_cells Object_keys_def)
  show "view_state heap1 0 = []"
    by (simp add: view_state_def heap1_cells)
  show "addAnnotation heap1 0 1 = Inr (sys_heap (drawing_at (0, 0)))"
    using heap1_add by (simp add: drawing_at_fields)
  show "drawData (sys_tool (drawing_at (0, 0))) = Some \<lparr>canvasPoints = [(0, 0)], polylineIndex = 0\<rparr>"
    by (simp add: drawing_at_fields)
  show "subPixelResolution (configuration (sys_tool (drawing_at (0, 0)))) = 4"
    by (simp add: drawing_at_fields config4_def)
  have uid: "annotationUID (anns heap2 (Suc 0)) = ''a-1''"
    by (simp add: heap2_def heap1_cells ann0_def)
  show "case mouseUpDrawCallback plane_env (drawing_at (0, 0)) of
         Inl e \<Rightarrow> False
       | Inr s' \<Rightarrow> getFramesOfReference (sys_heap s') 0 = [''FoR-1'']
                   \<and> view_state (sys_heap s') 0 = [(''FoR-1'', [])]"
    by (simp add: mouseUpDrawCallback_def drawing_at_fields config4_def uid
        annotationState_removeAnnotation_def heap1_add_remove deactivateDraw_def
        getFramesOfReference_def Object_keys_no_index plain_names view_state_def view_frame_def)
  show "restoreAnnotations heap8 0 2 (Some ''FoR-1'') (Some ''PlanarFreehandROI'') = (heap9, 0)"
    by (rule heap8_restore)
  show "arrays heap8 2 = []"
    by (simp add: heap8_def alloc_array_def heap1_cells)
  show "view_state heap9 0 = [(''FoR-1'', [(''PlanarFreehandROI'', [])])]"
    by (simp add: view_state_def view_frame_def view_array_def heap9_cells)
  show "addAnnotation heap9 0 1 = Inr (sys_heap drawing10)"
    using heap9_add by (simp add: drawing10_fields)
  show "drawData (sys_tool drawing10) = Some \<lparr>canvasPoints = [(0, 0)], polylineIndex = 0\<rparr>"
    by (simp add: drawing10_fields)
  show "subPixelResolution (configuration (sys_tool drawing10)) = 4"
    by (simp add: drawing10_fields config4_def)
  have uid10: "annotationUID (anns heap10 (Suc 0)) = ''a-1''"
    by (simp add: heap10_def heap9_cells ann0_def)
  show "case mouseUpDrawCallback plane_env drawing10 of
         Inl e \<Rightarrow> False
       | Inr s' \<Rightarrow> view_state (sys_heap s') 0 = [(''FoR-1'', [])]"
    by (simp add: mouseUpDrawCallback_def drawing10_fields config4_def uid10
        annotationState_removeAnnotation_def heap10_remove deactivateDraw_def)
      (simp add: view_state_def view_frame_def heap10_def heap9_cells)
qed


section \<open>Deep copies\<close>

lemma extends_refl [simp]: "extends h h"
  by (simp add: extends_def agree_below_def)

lemma extends_trans: "extends h h1 \<Longrightarrow> extends h1 h2 \<Longrightarrow> extends h h2"
  by (auto simp: extends_def agree_below_def)

lemma extends_alloc [simp]:
  "extends h (fst (alloc_ann h a))" "extends h (fst (alloc_array h ps))"
  "extends h (fst (alloc_frame h d))" "extends h (fst (alloc_state h d))"
  by (simp_all add: extends_def agree_below_def alloc_ann_def alloc_array_def alloc_frame_def
      alloc_state_def)

lemma extends_cells:
  assumes "extends h h'" "a < next_addr h"
  shows "anns h' a = anns h a" "arrays h' a = arrays h a"
    "frames h' a = frames h a" "states h' a = states h a"
  using assms by (simp_all add: extends_def agree_below_def)

lemma extends_next: "extends h h' \<Longrightarrow> next_addr h \<le> next_addr h'"
  by (simp add: extends_def)

lemma extends_agree: "extends h h' \<Longrightarrow> agree_below (next_addr h) h h'"
  by (simp add: extends_def)

lemma agree_below_trans:
  "agree_below n h h1 \<Longrightarrow> agree_below n h1 h2 \<Longrightarrow> agree_below n h h2"
  by (simp add: agree_below_def)

text \<open>
  Closed objects stay closed in a heap that extends theirs, and keep their content and
  their position.
\<close>

lemma closed_array_extends:
  assumes "closed_array h arr" "extends h h'"
  shows "closed_array h' arr" "view_array h' arr = view_array h arr"
    "array_above lo h arr \<Longrightarrow> array_above lo h' arr"
proof -
  from assms have lt: "arr < next_addr h" by (simp add: closed_array_def)
  with assms(2) have eq: "arrays h' arr = arrays h arr" by (simp add: extends_cells)
  from assms extends_next [OF assms(2)] show "closed_array h' arr"
    by (auto simp: closed_array_def eq)
  from assms show "view_array h' arr = view_array h arr"
    by (simp add: view_array_agree extends_agree)
  show "array_above lo h arr \<Longrightarrow> array_above lo h' arr"
    by (simp add: array_above_def eq)
qed

lemma closed_frame_extends:
  assumes "closed_frame h fr" "extends h h'"
  shows "closed_frame h' fr" "view_frame h' fr = view_frame h fr"
    "frame_above lo h fr \<Longrightarrow> frame_above lo h' fr"
proof -
  from assms have lt: "fr < next_addr h" by (simp add: closed_frame_def)
  with assms(2) have eq: "frames h' fr = frames h fr" by (simp add: extends_cells)
  from assms(1) have sub: "\<And>arr. arr \<in> snd ` set (frames h fr) \<Longrightarrow> closed_array h arr"
    by (auto simp: closed_frame_def)
  from lt extends_next [OF assms(2)] sub show "closed_frame h' fr"
    by (auto simp: closed_frame_def eq intro: closed_array_extends(1) [OF _ assms(2)])
  from assms show "view_frame h' fr = view_frame h fr"
    by (simp add: view_frame_agree extends_agree)
  show "frame_above lo h fr \<Longrightarrow> frame_above lo h' fr"
    using sub by (auto simp: frame_above_def eq intro: closed_array_extends(3) [OF _ assms(2)])
qed

lemma closed_state_extends:
  assumes "closed_state h st" "extends h h'"
  shows "closed_state h' st" "view_state h' st = view_state h st"
    "state_above lo h st \<Longrightarrow> state_above lo h' st"
proof -
  from assms have lt: "st < next_addr h" by (simp add: closed_state_def)
  with assms(2) have eq: "states h' st = states h st" by (simp add: extends_cells)
  from assms(1) have sub: "\<And>fr. fr \<in> snd ` set (states h st) \<Longrightarrow> closed_frame h fr"
    by (auto simp: closed_state_def)
  from lt extends_next [OF assms(2)] sub show "closed_state h' st"
    by (auto simp: closed_state_def eq intro: closed_frame_extends(1) [OF _ assms(2)])
  from assms show "view_state h' st = view_state h st"
    by (simp add: view_state_agree extends_agree)
  show "state_above lo h st \<Longrightarrow> state_above lo h' st"
    using sub by (auto simp: state_above_def eq intro: closed_frame_extends(3) [OF _ assms(2)])
qed

lemma above_mono:
  "lo \<le> lo' \<Longrightarrow> array_above lo' h arr \<Longrightarrow> array_above lo h arr"
  "lo \<le> lo' \<Longrightarrow> frame_above lo' h fr \<Longrightarrow> frame_above lo h fr"
  "lo \<le> lo' \<Longrightarrow> state_above lo' h st \<Longrightarrow> state_above lo h st"
  by (fastforce simp: array_above_def frame_above_def state_above_def)+

text \<open>
  A copy has the content of the original and consists of newly allocated objects only.
\<close>

lemma clone_anns_spec:
  assumes "\<forall>p \<in> set ps. p < next_addr h" and "clone_anns h ps = (h', ps')"
  shows "extends h h' \<and> map (anns h') ps' = map (anns h) ps
         \<and> (\<forall>q \<in> set ps'. next_addr h \<le> q \<and> q < next_addr h')
         \<and> arrays h' = arrays h"
  using assms
proof (induction ps arbitrary: h h' ps')
  case Nil
  then show ?case by simp
next
  case (Cons p ps)
  let ?h1 = "fst (alloc_ann h (anns h p))"
  obtain h2 ps2 where rest: "clone_anns ?h1 ps = (h2, ps2)" by fastforce
  with Cons.prems(2) have res: "h' = h2" "ps' = next_addr h # ps2"
    by (simp_all add: alloc_ann_def split: prod.splits)
  have h1: "next_addr ?h1 = Suc (next_addr h)" "arrays ?h1 = arrays h"
    "anns ?h1 = (anns h)(next_addr h := anns h p)"
    by (simp_all add: alloc_ann_def)
  from Cons.prems(1) have small: "\<forall>q \<in> set ps. q < next_addr ?h1" by (auto simp: h1)
  from Cons.IH [OF small rest]
  have IH: "extends ?h1 h2" "map (anns h2) ps2 = map (anns ?h1) ps"
    "\<forall>q \<in> set ps2. next_addr ?h1 \<le> q \<and> q < next_addr h2" "arrays h2 = arrays ?h1"
    by simp_all
  have ext: "extends h h2"
    using extends_alloc(1) IH(1) by (rule extends_trans)
  have "anns h2 (next_addr h) = anns ?h1 (next_addr h)"
    using IH(1) by (rule extends_cells) (simp add: h1)
  then have head: "anns h2 (next_addr h) = anns h p" by (simp add: h1)
  have tail: "map (anns ?h1) ps = map (anns h) ps"
    using Cons.prems(1) by (auto simp: h1)
  from extends_next [OF IH(1)] have lt: "next_addr h < next_addr h2" by (simp add: h1)
  show ?case
    using ext head tail IH(2,3,4) lt by (auto simp: res h1)
qed

lemma cloneDeep_Annotations_spec:
  assumes "closed_array h arr" and "cloneDeep_Annotations h arr = (h', c)"
  shows "extends h h' \<and> view_array h' c = view_array h arr
         \<and> closed_array h' c \<and> array_above (next_addr h) h' c"
proof -
  obtain h1 ps' where cl: "clone_anns h (arrays h arr) = (h1, ps')" by fastforce
  from assms(1) have "\<forall>p \<in> set (arrays h arr). p < next_addr h"
    by (simp add: closed_array_def)
  from clone_anns_spec [OF this cl]
  have A: "extends h h1" "map (anns h1) ps' = map (anns h) (arrays h arr)"
    "\<forall>q \<in> set ps'. next_addr h \<le> q \<and> q < next_addr h1"
    by simp_all
  from assms(2) cl have res: "h' = fst (alloc_array h1 ps')" "c = next_addr h1"
    by (auto simp: cloneDeep_Annotations_def alloc_array_def)
  have ext: "extends h h'"
    unfolding res using A(1) extends_alloc(2) by (rule extends_trans)
  have cells: "arrays h' (next_addr h1) = ps'" "anns h' = anns h1"
    "next_addr h' = Suc (next_addr h1)"
    by (simp_all add: res alloc_array_def)
  show ?thesis
    using ext A(2,3) extends_next [OF A(1)]
    by (auto simp: view_array_def cells closed_array_def array_above_def res(2))
qed

lemma clone_entries_spec:
  fixes closed :: "heap \<Rightarrow> addr \<Rightarrow> bool"
    and view :: "heap \<Rightarrow> addr \<Rightarrow> 'v"
    and above :: "addr \<Rightarrow> heap \<Rightarrow> addr \<Rightarrow> bool"
  assumes spec: "\<And>h a h' c. closed h a \<Longrightarrow> cl h a = (h', c) \<Longrightarrow>
             extends h h' \<and> view h' c = view h a \<and> closed h' c \<and> above (next_addr h) h' c"
    and stable: "\<And>h h' a lo. closed h a \<Longrightarrow> extends h h' \<Longrightarrow>
             closed h' a \<and> view h' a = view h a \<and> (above lo h a \<longrightarrow> above lo h' a)"
    and mono: "\<And>lo lo' h a. lo \<le> lo' \<Longrightarrow> above lo' h a \<Longrightarrow> above lo h a"
    and cl: "\<forall>a \<in> snd ` set d. closed h a"
    and res: "clone_entries cl h d = (h', d')"
  shows "extends h h'
         \<and> map (\<lambda>(k, a). (k, view h' a)) d' = map (\<lambda>(k, a). (k, view h a)) d
         \<and> (\<forall>a \<in> snd ` set d'. closed h' a \<and> above (next_addr h) h' a)"
  using cl res
proof (induction d arbitrary: h h' d')
  case Nil
  then show ?case by simp
next
  case (Cons e d)
  obtain k a where e: "e = (k, a)" by (cases e)
  obtain h1 c where first: "cl h a = (h1, c)" by fastforce
  obtain h2 d2 where rest: "clone_entries cl h1 d = (h2, d2)" by fastforce
  from Cons.prems(2) e first rest have res: "h' = h2" "d' = (k, c) # d2" by simp_all
  from Cons.prems(1) e have ca: "closed h a" by simp
  from spec [OF ca first]
  have S: "extends h h1" "view h1 c = view h a" "closed h1 c" "above (next_addr h) h1 c"
    by simp_all
  have cl1: "\<forall>a \<in> snd ` set d. closed h1 a"
    using Cons.prems(1) stable [OF _ S(1)] by auto
  from Cons.IH [OF cl1 rest]
  have IH: "extends h1 h2" "map (\<lambda>(k, a). (k, view h2 a)) d2 = map (\<lambda>(k, a). (k, view h1 a)) d"
    "\<forall>a \<in> snd ` set d2. closed h2 a \<and> above (next_addr h1) h2 a"
    by simp_all
  have ext: "extends h h2" using S(1) IH(1) by (rule extends_trans)
  from stable [OF S(3) IH(1), of "next_addr h"] S(2,4)
  have c2: "closed h2 c" "view h2 c = view h a" "above (next_addr h) h2 c" by simp_all
  have old: "map (\<lambda>(k, a). (k, view h1 a)) d = map (\<lambda>(k, a). (k, view h a)) d"
    using Cons.prems(1) stable [OF _ S(1)] by auto
  have ab: "\<forall>a \<in> snd ` set d2. closed h2 a \<and> above (next_addr h) h2 a"
    using IH(3) mono [OF extends_next [OF S(1)]] by blast
  show ?case
    using ext c2 IH(2) old ab by (simp add: res e)
qed

lemma cloneDeep_Frame_spec:
  assumes "closed_frame h fr" and "cloneDeep_Frame h fr = (h', c)"
  shows "extends h h' \<and> view_frame h' c = view_frame h fr
         \<and> closed_frame h' c \<and> frame_above (next_addr h) h' c"
proof -
  obtain h1 d' where cl: "clone_entries cloneDeep_Annotations h (frames h fr) = (h1, d')"
    by fastforce
  from assms(1) have sub: "\<forall>a \<in> snd ` set (frames h fr). closed_array h a"
    by (auto simp: closed_frame_def)
  have "extends h h1
         \<and> map (\<lambda>(k, a). (k, view_array h1 a)) d' = map (\<lambda>(k, a). (k, view_array h a)) (frames h fr)
         \<and> (\<forall>a \<in> snd ` set d'. closed_array h1 a \<and> array_above (next_addr h) h1 a)"
  proof (rule clone_entries_spec [where cl = cloneDeep_Annotations and closed = closed_array
        and view = view_array and above = array_above])
    show "\<forall>a \<in> snd ` set (frames h fr). closed_array h a" by (rule sub)
    show "clone_entries cloneDeep_Annotations h (frames h fr) = (h1, d')" by (rule cl)
    show "extends h a' \<and> view_array a' c = view_array h a \<and> closed_array a' c
            \<and> array_above (next_addr h) a' c"
      if "closed_array h a" "cloneDeep_Annotations h a = (a', c)" for h a a' c
      using that by (rule cloneDeep_Annotations_spec)
    show "closed_array h' a \<and> view_array h' a = view_array h a
            \<and> (array_above lo h a \<longrightarrow> array_above lo h' a)"
      if "closed_array h a" "extends h h'" for h h' a lo
      using closed_array_extends [OF that] by blast
    show "array_above lo h a" if "lo \<le> lo'" "array_above lo' h a" for lo lo' h a
      using that by (rule above_mono)
  qed
  then have A: "extends h h1"
    "map (\<lambda>(k, a). (k, view_array h1 a)) d' = map (\<lambda>(k, a). (k, view_array h a)) (frames h fr)"
    "\<forall>a \<in> snd ` set d'. closed_array h1 a \<and> array_above (next_addr h) h1 a"
    by simp_all
  from assms(2) cl have res: "h' = fst (alloc_frame h1 d')" "c = next_addr h1"
    by (auto simp: cloneDeep_Frame_def alloc_frame_def)
  have ext1: "extends h1 h'" unfolding res by (rule extends_alloc)
  have ext: "extends h h'" using A(1) ext1 by (rule extends_trans)
  have cells: "frames h' (next_addr h1) = d'" "next_addr h' = Suc (next_addr h1)"
    by (simp_all add: res alloc_frame_def)
  have kids: "\<forall>a \<in> snd ` set d'. closed_array h' a \<and> view_array h' a = view_array h1 a
                \<and> array_above (next_addr h) h' a"
    using A(3) closed_array_extends [OF _ ext1] by blast
  have "map (\<lambda>(k, a). (k, view_array h' a)) d' = map (\<lambda>(k, a). (k, view_array h1 a)) d'"
    using kids by auto
  with A(2) have view: "view_frame h' c = view_frame h fr"
    by (simp add: view_frame_def res(2) cells)
  show ?thesis
    using ext view kids extends_next [OF A(1)]
    by (auto simp: closed_frame_def frame_above_def res(2) cells)
qed

lemma cloneDeep_State_spec:
  assumes "closed_state h st" and "cloneDeep_State h st = (h', c)"
  shows "extends h h' \<and> view_state h' c = view_state h st
         \<and> closed_state h' c \<and> state_above (next_addr h) h' c"
proof -
  obtain h1 d' where cl: "clone_entries cloneDeep_Frame h (states h st) = (h1, d')"
    by fastforce
  from assms(1) have sub: "\<forall>a \<in> snd ` set (states h st). closed_frame h a"
    by (auto simp: closed_state_def)
  have "extends h h1
         \<and> map (\<lambda>(k, a). (k, view_frame h1 a)) d' = map (\<lambda>(k, a). (k, view_frame h a)) (states h st)
         \<and> (\<forall>a \<in> snd ` set d'. closed_frame h1 a \<and> frame_above (next_addr h) h1 a)"
  proof (rule clone_entries_spec [where cl = cloneDeep_Frame and closed = closed_frame
        and view = view_frame and above = frame_above])
    show "\<forall>a \<in> snd ` set (states h st). closed_frame h a" by (rule sub)
    show "clone_entries cloneDeep_Frame h (states h st) = (h1, d')" by (rule cl)
    show "extends h a' \<and> view_frame a' c = view_frame h a \<and> closed_frame a' c
            \<and> frame_above (next_addr h) a' c"
      if "closed_frame h a" "cloneDeep_Frame h a = (a', c)" for h a a' c
      using that by (rule cloneDeep_Frame_spec)
    show "closed_frame h' a \<and> view_frame h' a = view_frame h a
            \<and> (frame_above lo h a \<longrightarrow> frame_above lo h' a)"
      if "closed_frame h a" "extends h h'" for h h' a lo
      using closed_frame_extends [OF that] by blast
    show "frame_above lo h a" if "lo \<le> lo'" "frame_above lo' h a" for lo lo' h a
      using that by (rule above_mono)
  qed
  then have A: "extends h h1"
    "map (\<lambda>(k, a). (k, view_frame h1 a)) d' = map (\<lambda>(k, a). (k, view_frame h a)) (states h st)"
    "\<forall>a \<in> snd ` set d'. closed_frame h1 a \<and> frame_above (next_addr h) h1 a"
    by simp_all
  from assms(2) cl have res: "h' = fst (alloc_state h1 d')" "c = next_addr h1"
    by (auto simp: cloneDeep_State_def alloc_state_def)
  have ext1: "extends h1 h'" unfolding res by (rule extends_alloc)
  have ext: "extends h h'" using A(1) ext1 by (rule extends_trans)
  have cells: "states h' (next_addr h1) = d'" "next_addr h' = Suc (next_addr h1)"
    by (simp_all add: res alloc_state_def)
  have kids: "\<forall>a \<in> snd ` set d'. closed_frame h' a \<and> view_frame h' a = view_frame h1 a
                \<and> frame_above (next_addr h) h' a"
    using A(3) closed_frame_extends [OF _ ext1] by blast
  have "map (\<lambda>(k, a). (k, view_frame h' a)) d' = map (\<lambda>(k, a). (k, view_frame h1 a)) d'"
    using kids by auto
  with A(2) have view: "view_state h' c = view_state h st"
    by (simp add: view_state_def res(2) cells)
  show ?thesis
    using ext view kids extends_next [OF A(1)]
    by (auto simp: closed_state_def state_above_def res(2) cells)
qed


lemma state_above_cells:
  assumes "state_above n h st"
  shows "n \<le> st" "\<forall>a \<in> state_frames h st. n \<le> a" "\<forall>a \<in> state_arrays h st. n \<le> a"
    "\<forall>a \<in> state_anns h st. n \<le> a"
  using assms
  by (auto simp: state_above_def frame_above_def array_above_def state_frames_def
      state_arrays_def state_anns_def)

lemma closed_state_cells:
  assumes "closed_state h st"
  shows "st < next_addr h" "\<forall>a \<in> state_frames h st. a < next_addr h"
    "\<forall>a \<in> state_arrays h st. a < next_addr h" "\<forall>a \<in> state_anns h st. a < next_addr h"
  using assms
  by (auto simp: closed_state_def closed_frame_def closed_array_def state_frames_def
      state_arrays_def state_anns_def)

lemma only_changed_agree:
  assumes "state_above n h st" "only_changed h st h'"
  shows "agree_below n h h'"
  using state_above_cells [OF assms(1)] assms(2)
  unfolding agree_below_def only_changed_def
  by (metis leD)

lemma state_cells_extends:
  assumes "closed_state h st" "extends h h'"
  shows "state_frames h' st = state_frames h st" "state_arrays h' st = state_arrays h st"
    "state_anns h' st = state_anns h st"
proof -
  note c = closed_state_cells [OF assms(1)]
  show f: "state_frames h' st = state_frames h st"
    using c(1) assms(2) by (simp add: state_frames_def extends_cells)
  show a: "state_arrays h' st = state_arrays h st"
    using c(2) assms(2) by (simp add: state_arrays_def f extends_cells)
  show "state_anns h' st = state_anns h st"
    using c(3) assms(2) by (simp add: state_anns_def a extends_cells)
qed

lemma only_changed_write_state:
  "only_changed h c (h\<lparr>states := (states h)(c := d)\<rparr>)"
  by (simp add: only_changed_def)

lemma saveAnnotations_all:
  "saveAnnotations h st None None = (case cloneDeep_State h st of (h', c) \<Rightarrow> (h', Some c))"
  by (simp add: saveAnnotations_def truthy_def)

lemma restoreAnnotations_all:
  "restoreAnnotations h st data None None = cloneDeep_State h data"
  by (simp add: restoreAnnotations_def truthy_def)

lemma heap3_closed: "closed_state heap3 0"
  by (simp add: closed_state_def closed_frame_def closed_array_def heap3_def)


section \<open>Export and import of the whole store\<close>

text \<open>
  C5. For every (closed) store, \<open>saveAnnotations\<close> without arguments returns a state object
  whose nested content equals the store's, and leaves the store's content as it was. The
  returned object, its frame objects, arrays and annotation objects are all different
  from the store's, and whatever is written to them afterwards, the content of the store
  stays the same. \<open>restoreAnnotations\<close> of the returned object into a fresh manager gives
  that manager the same nested content, and leaves the original store's content as it was.
\<close>

theorem export_import_roundtrip:
  assumes closed: "closed_state h st"
  shows "case saveAnnotations h st None None of
           (h1, None) \<Rightarrow> False
         | (h1, Some c) \<Rightarrow>
             view_state h1 c = view_state h st
             \<and> view_state h1 st = view_state h st
             \<and> c \<noteq> st
             \<and> state_frames h1 c \<inter> state_frames h1 st = {}
             \<and> state_arrays h1 c \<inter> state_arrays h1 st = {}
             \<and> state_anns h1 c \<inter> state_anns h1 st = {}
             \<and> (\<forall>h2. only_changed h1 c h2 \<longrightarrow> view_state h2 st = view_state h st)
             \<and> (case new_manager h1 of
                  (h2, m) \<Rightarrow>
                    (case restoreAnnotations h2 m c None None of
                       (h3, r) \<Rightarrow> view_state h3 r = view_state h st
                                   \<and> view_state h3 st = view_state h st))"
proof -
  obtain h1 c where cl: "cloneDeep_State h st = (h1, c)" by fastforce
  from cloneDeep_State_spec [OF closed cl]
  have A: "extends h h1" "view_state h1 c = view_state h st" "closed_state h1 c"
    "state_above (next_addr h) h1 c"
    by simp_all
  note old = closed_state_extends [OF closed A(1)]
  note oc = closed_state_cells [OF closed]
  note oc1 = state_cells_extends [OF closed A(1)]
  note nc = state_above_cells [OF A(4)]
  have ne: "c \<noteq> st" using oc(1) nc(1) by auto
  have d1: "state_frames h1 c \<inter> state_frames h1 st = {}"
    using oc(2) nc(2) by (fastforce simp: oc1)
  have d2: "state_arrays h1 c \<inter> state_arrays h1 st = {}"
    using oc(3) nc(3) by (fastforce simp: oc1)
  have d3: "state_anns h1 c \<inter> state_anns h1 st = {}"
    using oc(4) nc(4) by (fastforce simp: oc1)
  have mut: "view_state h2 st = view_state h st" if "only_changed h1 c h2" for h2
  proof -
    have "agree_below (next_addr h) h1 h2" using A(4) that by (rule only_changed_agree)
    with extends_agree [OF A(1)] have "agree_below (next_addr h) h h2"
      by (rule agree_below_trans)
    then show ?thesis using closed by (rule view_state_agree)
  qed
  obtain h2 m where nm: "new_manager h1 = (h2, m)" by fastforce
  then have e12: "extends h1 h2"
    using extends_alloc(4) [of h1 "[]"] by (simp add: new_manager_def)
  obtain h3 r where re: "cloneDeep_State h2 c = (h3, r)" by fastforce
  note c2 = closed_state_extends [OF A(3) e12]
  from cloneDeep_State_spec [OF c2(1) re]
  have B: "extends h2 h3" "view_state h3 r = view_state h2 c" by simp_all
  have e13: "extends h h3"
    using extends_trans [OF A(1) e12] B(1) by (rule extends_trans)
  have rt: "view_state h3 r = view_state h st" "view_state h3 st = view_state h st"
    using B(2) c2(2) A(2) closed_state_extends(2) [OF closed e13] by simp_all
  show ?thesis
    using A(2) old(2) ne d1 d2 d3 mut rt
    by (simp add: saveAnnotations_all restoreAnnotations_all cl nm re)
qed

text \<open>
  The instance with the store \<open>heap3\<close>; the write empties the exported state object.
\<close>

theorem export_import_witness:
  "closed_state heap3 0
   \<and> (case saveAnnotations heap3 0 None None of
         (h1, None) \<Rightarrow> False
       | (h1, Some c) \<Rightarrow>
           view_state h1 c = view_state heap3 0
           \<and> only_changed h1 c (h1\<lparr>states := (states h1)(c := [])\<rparr>)
           \<and> view_state (h1\<lparr>states := (states h1)(c := [])\<rparr>) 0 = view_state heap3 0
           \<and> (case new_manager h1 of
                (h2, m) \<Rightarrow>
                  (case restoreAnnotations h2 m c None None of
                     (h3, r) \<Rightarrow> view_state h3 r = view_state heap3 0)))"
proof -
  note rt = export_import_roundtrip [OF heap3_closed]
  obtain h1 oc where sv: "saveAnnotations heap3 0 None None = (h1, oc)" by fastforce
  with rt obtain c where c: "oc = Some c" by (cases oc) simp_all
  obtain h2 m where nm: "new_manager h1 = (h2, m)" by fastforce
  obtain h3 r where re: "restoreAnnotations h2 m c None None = (h3, r)" by fastforce
  from rt have facts: "view_state h1 c = view_state heap3 0"
    "\<forall>h2. only_changed h1 c h2 \<longrightarrow> view_state h2 0 = view_state heap3 0"
    "view_state h3 r = view_state heap3 0"
    by (simp_all add: sv c nm re)
  from facts(2) only_changed_write_state
  have "view_state (h1\<lparr>states := (states h1)(c := [])\<rparr>) 0 = view_state heap3 0"
    by blast
  with facts(1,3) heap3_closed show ?thesis
    by (simp add: sv c nm re only_changed_write_state)
qed


section \<open>Import into a scope\<close>

text \<open>
  C6. Code at the failing inputs. With a frame of reference and a tool name,
  \<open>restoreAnnotations\<close> stores the caller's array itself: \<open>get\<close> returns the reference
  that was passed in, and emptying the caller's array afterwards empties the store's
  bucket. With a frame of reference only, it stores the caller's frame object itself, and
  emptying that object afterwards empties the store's frame.
\<close>

theorem scoped_restore_shares_data:
  "arrays heap5 2 = [1] \<and> frames heap5 3 = [(''PlanarFreehandROI'', 2)] \<and> states heap5 0 = []
   \<and> (case restoreAnnotations heap5 0 2 (Some ''FoR-1'') (Some ''PlanarFreehandROI'') of
         (h', r) \<Rightarrow>
           get_annotations h' r ''FoR-1'' ''PlanarFreehandROI'' = Some 2
           \<and> view_state h' r = [(''FoR-1'', [(''PlanarFreehandROI'', [ann0])])]
           \<and> view_state (h'\<lparr>arrays := (arrays h')(2 := [])\<rparr>) r
               = [(''FoR-1'', [(''PlanarFreehandROI'', [])])])
   \<and> (case restoreAnnotations heap5 0 3 (Some ''FoR-1'') None of
         (h', r) \<Rightarrow>
           getFrameOfReferenceAnnotations h' r ''FoR-1'' = Some 3
           \<and> view_state h' r = [(''FoR-1'', [(''PlanarFreehandROI'', [ann0])])]
           \<and> view_state (h'\<lparr>frames := (frames h')(3 := [])\<rparr>) r = [(''FoR-1'', [])])"
  by (simp add: heap5_def heap1_def new_manager_def alloc_state_def alloc_ann_def alloc_array_def
      alloc_frame_def empty_heap_def restoreAnnotations_def truthy_def get_annotations_def
      getFrameOfReferenceAnnotations_def view_state_def view_frame_def view_array_def)


section \<open>Rounding\<close>

lemma round_half_even_int [simp]: "round_half_even (real_of_int n) = n"
  by (simp add: round_half_even_def)

lemma floor_log2_less:
  assumes "0 < x" "x < 2 powr real_of_int k"
  shows "\<lfloor>log 2 x\<rfloor> < k"
proof -
  from assms have "log 2 x < real_of_int k"
    by (simp add: log_less_iff)
  then show ?thesis by linarith
qed

text \<open>A number of the format is rounded to itself.\<close>

lemma round_binary_exact:
  assumes x: "x = real_of_int m * 2 powr real_of_int e"
    and m: "\<bar>m\<bar> < 2 ^ p"
    and lo: "emin - int p + 1 \<le> e"
    and hi: "e + int p \<le> 2 - emin"
  shows "round_binary p emin x = Finite x"
proof (cases "m = 0")
  case True
  then show ?thesis by (simp add: x round_binary_def)
next
  case False
  then have x0: "x \<noteq> 0" by (simp add: x)
  have absx: "\<bar>x\<bar> = real_of_int \<bar>m\<bar> * 2 powr real_of_int e"
    by (simp add: x abs_mult)
  have "real_of_int \<bar>m\<bar> < 2 ^ p" using m by (metis of_int_less_numeral_power_cancel_iff)
  then have "real_of_int \<bar>m\<bar> < 2 powr real_of_int (int p)"
    by (simp add: powr_realpow)
  then have lt: "\<bar>x\<bar> < 2 powr real_of_int (int p + e)"
    unfolding absx by (simp add: powr_add)
  define E where "E = max \<lfloor>log 2 \<bar>x\<bar>\<rfloor> emin"
  have "\<lfloor>log 2 \<bar>x\<bar>\<rfloor> < int p + e"
    using x0 lt by (intro floor_log2_less) simp_all
  with lo have E: "E - int p + 1 \<le> e" by (simp add: E_def)
  define d where "d = nat (e - (E - int p + 1))"
  have de: "real_of_int e = real_of_int (E - int p + 1) + real d"
    using E by (simp add: d_def)
  have q: "x / 2 powr real_of_int (E - int p + 1) = real_of_int (m * 2 ^ d)"
    unfolding x de powr_add by (simp add: powr_realpow)
  have r: "real_of_int (round_half_even (x / 2 powr real_of_int (E - int p + 1)))
             * 2 powr real_of_int (E - int p + 1) = x"
    unfolding q round_half_even_int
    unfolding x de powr_add by (simp add: powr_realpow)
  have "2 powr real_of_int (int p + e) \<le> (2::real) powr real_of_int (2 - emin)"
    using hi by (simp add: add.commute)
  with lt have "\<bar>x\<bar> < 2 powr real_of_int (2 - emin)" by linarith
  then show ?thesis
    using x0 r by (simp add: round_binary_def Let_def E_def [symmetric])
qed

lemma dyadic_exact:
  assumes "\<bar>m\<bar> < 2 ^ 24" "k \<le> 64"
  shows "double (real_of_int m / 2 ^ k) = Finite (real_of_int m / 2 ^ k)"
    and "float32 (real_of_int m / 2 ^ k) = Finite (real_of_int m / 2 ^ k)"
proof -
  have x: "real_of_int m / 2 ^ k = real_of_int m * 2 powr real_of_int (- int k)"
    by (simp add: powr_minus powr_realpow divide_inverse)
  from assms(1) have "\<bar>m\<bar> < 2 ^ 53"
    by (rule less_le_trans) simp
  then show "double (real_of_int m / 2 ^ k) = Finite (real_of_int m / 2 ^ k)"
    unfolding double_def using assms(2) by (intro round_binary_exact [OF x]) simp_all
  show "float32 (real_of_int m / 2 ^ k) = Finite (real_of_int m / 2 ^ k)"
    unfolding float32_def using assms by (intro round_binary_exact [OF x]) simp_all
qed

text \<open>The numbers that the concrete drawing sessions meet.\<close>

lemma exact_values [simp]:
  "double 0 = Finite 0" "float32 0 = Finite 0"
  "double (1 / 2) = Finite (1 / 2)" "float32 (1 / 2) = Finite (1 / 2)"
  "double (3 / 2) = Finite (3 / 2)" "float32 (3 / 2) = Finite (3 / 2)"
  "double (- (3 / 2)) = Finite (- (3 / 2))" "float32 (- (3 / 2)) = Finite (- (3 / 2))"
  "double 3 = Finite 3" "float32 3 = Finite 3"
  "double 4 = Finite 4" "float32 4 = Finite 4"
  "double (- 4) = Finite (- 4)" "float32 (- 4) = Finite (- 4)"
  "double (- (1 / 4)) = Finite (- (1 / 4))" "float32 (- (1 / 4)) = Finite (- (1 / 4))"
  "double (- (5 / 8)) = Finite (- (5 / 8))" "float32 (- (5 / 8)) = Finite (- (5 / 8))"
  using dyadic_exact [of 0 0] dyadic_exact [of 1 1] dyadic_exact [of 3 1] dyadic_exact [of "- 3" 1]
    dyadic_exact [of 3 0] dyadic_exact [of 4 0] dyadic_exact [of "- 4" 0]
    dyadic_exact [of "- 1" 2] dyadic_exact [of "- 5" 3]
  by simp_all

text \<open>
  A number that is not of the format is rounded to a neighbour: the double nearest to 0.1
  lies between two single precision numbers, and the upper one is nearer.
\<close>

lemma floor_log2_eq:
  assumes "2 powr real_of_int k \<le> x" "x < 2 powr real_of_int (k + 1)"
  shows "\<lfloor>log 2 x\<rfloor> = k"
proof -
  have pos: "0 < x" using assms(1) by (rule less_le_trans [rotated]) simp
  from pos assms(1) have "real_of_int k \<le> log 2 x" by (simp add: le_log_iff)
  moreover from pos assms(2) have "log 2 x < real_of_int (k + 1)" by (simp add: log_less_iff)
  ultimately show ?thesis by linarith
qed

lemma round_binary_value:
  assumes lo: "2 powr real_of_int k \<le> \<bar>x\<bar>" and hi: "\<bar>x\<bar> < 2 powr real_of_int (k + 1)"
    and k: "emin \<le> k"
    and q: "q = 2 powr real_of_int (k - int p + 1)"
    and n: "round_half_even (x / q) = n"
    and fin: "\<bar>real_of_int n * q\<bar> < 2 powr real_of_int (2 - emin)"
  shows "round_binary p emin x = Finite (real_of_int n * q)"
proof -
  have "0 < \<bar>x\<bar>" using lo by (rule less_le_trans [rotated]) simp
  then have x0: "x \<noteq> 0" by simp
  have l: "\<lfloor>log 2 \<bar>x\<bar>\<rfloor> = k" using lo hi by (rule floor_log2_eq)
  from k have m: "max k emin = k" by simp
  show ?thesis
    unfolding round_binary_def l m Let_def q [symmetric] n
    using x0 fin by simp
qed

lemma float32_tenth:
  "float32 tenth = Finite (13421773 / 2 ^ 27)"
proof -
  let ?x = "3602879701896397 / 2 ^ 55 :: real"
  let ?q = "1 / 2 ^ 27 :: real"
  have lo: "2 powr real_of_int (- 4) \<le> \<bar>?x\<bar>"
    and hi: "\<bar>?x\<bar> < 2 powr real_of_int (- 4 + 1)"
    by (simp_all add: powr_minus_divide)
  have q: "?q = 2 powr real_of_int (- 4 - int 24 + 1)"
    by (simp add: powr_minus_divide)
  have n: "round_half_even (?x / ?q) = 13421773"
    by (simp add: round_half_even_def Let_def)
  have fin: "\<bar>real_of_int 13421773 * ?q\<bar> < 2 powr real_of_int (2 - (- 126))"
    by simp
  have "round_binary 24 (- 126) ?x = Finite (real_of_int 13421773 * ?q)"
    using lo hi _ q n fin by (rule round_binary_value) simp
  then show ?thesis unfolding float32_def tenth_def by simp
qed

lemma double_tenth: "double tenth = Finite tenth"
proof -
  have x: "tenth = real_of_int 3602879701896397 * 2 powr real_of_int (- 55)"
    by (simp add: tenth_def powr_minus_divide)
  show ?thesis
    unfolding double_def by (rule round_binary_exact [OF x]) simp_all
qed



section \<open>The spacing test of the drag callback\<close>

lemma plane_env_fields:
  "canvasToWorld plane_env c = (fst c, snd c, 0)"
  "worldToCanvas plane_env w = (fst w, fst (snd w))"
  "sampledPointsBetween plane_env pts p cd = []"
  "getFirstIntersectionWithPolyline plane_env = segmentsIntersect"
  "pointsAreWithinCloseContourProximity plane_env = withinCloseProximity"
  "getSubPixelSpacingAndXYDirections plane_env r = ((1 / r, 1 / r), (1, 0, 0), (0, 1, 0))"
  by (simp_all add: plane_env_def)

text \<open>
  The distances of the spacing test in the plane viewport: the event of \<open>drag_to\<close> at the
  canvas point \<open>(x, y)\<close> against the last buffer point \<open>(a, b)\<close>, for coordinate
  differences that single precision holds.
\<close>

lemma plane_distances:
  assumes "double (x - a) = Finite (x - a)" "float32 (x - a) = Finite (x - a)"
    and "double (y - b) = Finite (y - b)" "float32 (y - b) = Finite (y - b)"
  shows "Math_abs (vec3_dot (vec3_subtract (currentPoints_world (drag_to prev (x, y)))
                               (canvasToWorld plane_env (a, b))) (1, 0, 0)) = Finite \<bar>x - a\<bar>"
    and "Math_abs (vec3_dot (vec3_subtract (currentPoints_world (drag_to prev (x, y)))
                               (canvasToWorld plane_env (a, b))) (0, 1, 0)) = Finite \<bar>y - b\<bar>"
    and "Math_abs (vec3_dot (vec3_subtract (currentPoints_world (drag_to prev (x, y)))
                               (a, b, 0)) (1, 0, 0)) = Finite \<bar>x - a\<bar>"
    and "Math_abs (vec3_dot (vec3_subtract (currentPoints_world (drag_to prev (x, y)))
                               (a, b, 0)) (0, 1, 0)) = Finite \<bar>y - b\<bar>"
  using assms
  by (simp_all add: vec3_subtract_def vec3_dot_def to_float32_def num_mul_def num_add_def
      Math_abs_def drag_to_def plane_env_fields)

text \<open>
  C7. Code at the failing inputs. A motion sample whose world-space delta from the last
  recorded buffer point is within the spacing threshold along one axis and beyond it along
  the other is not discarded: the callback goes on to the crossing test and, where the
  pointer's last move crosses no segment of the buffer, records the sample. The buffer
  grows by the inserted points and the new canvas point.
\<close>

theorem drag_beyond_one_axis_recorded:
  assumes dd: "drawData (sys_tool s) = Some dd"
    and cd: "commonData (sys_tool s) = Some cd"
    and ne: "canvasPoints dd \<noteq> []"
    and one:
      "(num_le (Math_abs (vec3_dot (vec3_subtract (currentPoints_world evt)
                  (canvasToWorld env (last (canvasPoints dd)))) (xDir cd))) (fst (spacing cd))
        \<and> \<not> num_le (Math_abs (vec3_dot (vec3_subtract (currentPoints_world evt)
                  (canvasToWorld env (last (canvasPoints dd)))) (yDir cd))) (snd (spacing cd)))
       \<or> (\<not> num_le (Math_abs (vec3_dot (vec3_subtract (currentPoints_world evt)
                  (canvasToWorld env (last (canvasPoints dd)))) (xDir cd))) (fst (spacing cd))
           \<and> num_le (Math_abs (vec3_dot (vec3_subtract (currentPoints_world evt)
                  (canvasToWorld env (last (canvasPoints dd)))) (yDir cd))) (snd (spacing cd)))"
    and nocross: "getFirstIntersectionWithPolyline env (butlast (canvasPoints dd))
                    (currentPoints_canvas evt) (lastPoints_canvas evt) False = None"
  shows "mouseDragDrawCallback env s evt =
           Inr (s\<lparr>sys_tool := (sys_tool s)
                  \<lparr>drawData := Some
                     \<lparr>canvasPoints =
                        canvasPoints dd
                        @ sampledPointsBetween env (canvasPoints dd) (currentPoints_canvas evt) cd
                        @ [currentPoints_canvas evt],
                      polylineIndex =
                        polylineIndex dd
                        + (int (length (sampledPointsBetween env (canvasPoints dd)
                                          (currentPoints_canvas evt) cd)) + 1)\<rparr>\<rparr>\<rparr>)"
proof -
  have "findCrossingIndexDuringCreate env (canvasPoints dd) evt = None"
    by (simp add: findCrossingIndexDuringCreate_def nocross)
  with one ne show ?thesis
    by (auto simp: mouseDragDrawCallback_def dd cd addCanvasPointsToArray_def Let_def)
qed

text \<open>
  The instance with spacing (0.25, 0.25): after a start at the origin, the sample at
  (0, 0.5) has a delta of 0 along the x axis, less than the threshold, and is recorded.
\<close>

theorem drag_beyond_one_axis_witness:
  "drawData (sys_tool (drawing_at (0, 0))) = Some \<lparr>canvasPoints = [(0, 0)], polylineIndex = 0\<rparr>
   \<and> spacing (the (commonData (sys_tool (drawing_at (0, 0))))) = (1 / 4, 1 / 4)
   \<and> Math_abs (vec3_dot (vec3_subtract (currentPoints_world (drag_to (0, 0) (0, 1 / 2)))
                           (canvasToWorld plane_env (0, 0))) (1, 0, 0)) = Finite 0
   \<and> Math_abs (vec3_dot (vec3_subtract (currentPoints_world (drag_to (0, 0) (0, 1 / 2)))
                           (canvasToWorld plane_env (0, 0))) (0, 1, 0)) = Finite (1 / 2)
   \<and> (case mouseDragDrawCallback plane_env (drawing_at (0, 0)) (drag_to (0, 0) (0, 1 / 2)) of
         Inl e \<Rightarrow> False
       | Inr s' \<Rightarrow> drawData (sys_tool s')
                     = Some \<lparr>canvasPoints = [(0, 0), (0, 1 / 2)], polylineIndex = 1\<rparr>)"
proof -
  let ?dd = "\<lparr>canvasPoints = [(0, 0)], polylineIndex = 0\<rparr> :: DrawData"
  let ?cd = "\<lparr>cd_annotation = 1, viewportIdsToRender = [''viewport-1''],
           spacing = (1 / 4, 1 / 4), xDir = (1, 0, 0), yDir = (0, 1, 0)\<rparr>"
  let ?evt = "drag_to (0, 0) (0, 1 / 2)"
  have dist: "Math_abs (vec3_dot (vec3_subtract (currentPoints_world ?evt)
                           (canvasToWorld plane_env (0, 0))) (1, 0, 0)) = Finite 0"
    "Math_abs (vec3_dot (vec3_subtract (currentPoints_world ?evt)
                           (canvasToWorld plane_env (0, 0))) (0, 1, 0)) = Finite (1 / 2)"
    using plane_distances [of 0 0 "1 / 2" 0 "(0, 0)"] by simp_all
  have dd: "drawData (sys_tool (drawing_at (0, 0))) = Some ?dd"
    and cd: "commonData (sys_tool (drawing_at (0, 0))) = Some ?cd"
    and ne: "canvasPoints ?dd \<noteq> []"
    by (simp_all add: drawing_at_fields)
  have one:
      "(num_le (Math_abs (vec3_dot (vec3_subtract (currentPoints_world ?evt)
                  (canvasToWorld plane_env (last (canvasPoints ?dd)))) (xDir ?cd))) (fst (spacing ?cd))
        \<and> \<not> num_le (Math_abs (vec3_dot (vec3_subtract (currentPoints_world ?evt)
                  (canvasToWorld plane_env (last (canvasPoints ?dd)))) (yDir ?cd))) (snd (spacing ?cd)))
       \<or> (\<not> num_le (Math_abs (vec3_dot (vec3_subtract (currentPoints_world ?evt)
                  (canvasToWorld plane_env (last (canvasPoints ?dd)))) (xDir ?cd))) (fst (spacing ?cd))
           \<and> num_le (Math_abs (vec3_dot (vec3_subtract (currentPoints_world ?evt)
                  (canvasToWorld plane_env (last (canvasPoints ?dd)))) (yDir ?cd))) (snd (spacing ?cd)))"
    by (simp add: dist num_le_def)
  have nocross: "getFirstIntersectionWithPolyline plane_env (butlast (canvasPoints ?dd))
                    (currentPoints_canvas ?evt) (lastPoints_canvas ?evt) False = None"
    by (simp add: plane_env_fields segmentsIntersect_def)
  have r: "mouseDragDrawCallback plane_env (drawing_at (0, 0)) ?evt =
             Inr ((drawing_at (0, 0))\<lparr>sys_tool := (sys_tool (drawing_at (0, 0)))
                  \<lparr>drawData := Some \<lparr>canvasPoints = [(0, 0), (0, 1 / 2)], polylineIndex = 1\<rparr>\<rparr>\<rparr>)"
    using drag_beyond_one_axis_recorded [OF dd cd ne one nocross]
    by (simp add: plane_env_fields drag_to_def)
  show ?thesis
    by (simp add: r dist drawing_at_fields)
qed


lemma tenth_distances:
  "Math_abs (vec3_dot (vec3_subtract (tenth, tenth, 0) (0, 0, 0)) (1, 0, 0))
     = Finite (13421773 / 2 ^ 27)"
  "Math_abs (vec3_dot (vec3_subtract (tenth, tenth, 0) (0, 0, 0)) (0, 1, 0))
     = Finite (13421773 / 2 ^ 27)"
proof -
  have d: "double (13421773 / 2 ^ 27) = Finite (13421773 / 2 ^ 27)"
    using dyadic_exact(1) [of 13421773 27] by simp
  have v: "vec3_subtract (tenth, tenth, 0) (0, 0, 0)
           = (Finite (13421773 / 2 ^ 27), Finite (13421773 / 2 ^ 27), Finite 0)"
    by (simp add: vec3_subtract_def double_tenth to_float32_def float32_tenth)
  show "Math_abs (vec3_dot (vec3_subtract (tenth, tenth, 0) (0, 0, 0)) (1, 0, 0))
     = Finite (13421773 / 2 ^ 27)"
    and "Math_abs (vec3_dot (vec3_subtract (tenth, tenth, 0) (0, 0, 0)) (0, 1, 0))
     = Finite (13421773 / 2 ^ 27)"
    unfolding v using d
    by (simp_all add: vec3_dot_def num_mul_def num_add_def Math_abs_def)
qed

lemma drawing_tenth_fields:
  "drawData (sys_tool drawing_tenth) = Some \<lparr>canvasPoints = [(0, 0)], polylineIndex = 0\<rparr>"
  "commonData (sys_tool drawing_tenth) =
     Some \<lparr>cd_annotation = 1, viewportIdsToRender = [''viewport-1''],
           spacing = (tenth, tenth), xDir = (1, 0, 0), yDir = (0, 1, 0)\<rparr>"
  by (simp_all add: drawing_tenth_def drawing_at_fields Let_def)

text \<open>
  The rounding decides at the threshold. With a spacing of 0.1 on both axes, a sample whose
  world delta from the last buffer point is 0.1 along both axes is within the spacing on
  the reals; the difference stored in single precision is \<open>13421773 / 2^27\<close>, which is
  larger, and the sample is recorded.
\<close>

lemma single_precision_sample:
  "\<bar>tenth - 0\<bar> \<le> tenth
   \<and> tenth < 13421773 / 2 ^ 27
   \<and> mouseDragDrawCallback plane_env drawing_tenth (drag_to (0, 0) (tenth, tenth))
       = Inr (with_buffer drawing_tenth [(0, 0), (tenth, tenth)] 1)"
proof (intro conjI)
  show "\<bar>tenth - 0\<bar> \<le> tenth" by (simp add: tenth_def)
  show lt: "tenth < 13421773 / 2 ^ 27" by (simp add: tenth_def)
  from lt show "mouseDragDrawCallback plane_env drawing_tenth (drag_to (0, 0) (tenth, tenth))
       = Inr (with_buffer drawing_tenth [(0, 0), (tenth, tenth)] 1)"
    by (simp add: mouseDragDrawCallback_def drawing_tenth_fields drag_to_def tenth_distances
        num_le_def findCrossingIndexDuringCreate_def segmentsIntersect_def
        addCanvasPointsToArray_def plane_env_fields with_buffer_def Let_def)
qed


section \<open>Drawing sessions keep the buffer free of consecutive coincident points\<close>
















section \<open>Completing a contour\<close>





lemma plane_drag_recorded:
  assumes dd: "drawData (sys_tool s) = Some \<lparr>canvasPoints = pts, polylineIndex = i\<rparr>"
    and cd: "commonData (sys_tool s) = Some cd"
    and dirs: "xDir cd = (1, 0, 0)" "yDir cd = (0, 1, 0)"
    and last: "pts \<noteq> []" "last pts = (a, b)"
    and exact: "double (x - a) = Finite (x - a)" "float32 (x - a) = Finite (x - a)"
      "double (y - b) = Finite (y - b)" "float32 (y - b) = Finite (y - b)"
    and beyond: "\<not> (\<bar>x - a\<bar> \<le> fst (spacing cd) \<and> \<bar>y - b\<bar> \<le> snd (spacing cd))"
    and nocross: "segmentsIntersect (butlast pts) (x, y) prev False = None"
  shows "mouseDragDrawCallback plane_env s (drag_to prev (x, y))
           = Inr (with_buffer s (pts @ [(x, y)]) (i + 1))"
proof -
  note dist = plane_distances [OF exact, of prev]
  have c: "findCrossingIndexDuringCreate plane_env pts (drag_to prev (x, y)) = None"
    using nocross by (simp add: findCrossingIndexDuringCreate_def plane_env_fields drag_to_def)
  have e: "currentPoints_canvas (drag_to prev (x, y)) = (x, y)"
    by (simp add: drag_to_def)
  show ?thesis
    using beyond last(1)
    by (auto simp: mouseDragDrawCallback_def dd cd dirs last(2) dist num_le_def c e
        addCanvasPointsToArray_def plane_env_fields with_buffer_def Let_def)
qed

lemma plane_drag_discarded:
  assumes dd: "drawData (sys_tool s) = Some \<lparr>canvasPoints = pts, polylineIndex = i\<rparr>"
    and cd: "commonData (sys_tool s) = Some cd"
    and dirs: "xDir cd = (1, 0, 0)" "yDir cd = (0, 1, 0)"
    and last: "pts \<noteq> []" "last pts = (a, b)"
    and exact: "double (x - a) = Finite (x - a)" "float32 (x - a) = Finite (x - a)"
      "double (y - b) = Finite (y - b)" "float32 (y - b) = Finite (y - b)"
    and within: "\<bar>x - a\<bar> \<le> fst (spacing cd)" "\<bar>y - b\<bar> \<le> snd (spacing cd)"
  shows "mouseDragDrawCallback plane_env s (drag_to prev (x, y)) = Inr s"
proof -
  note dist = plane_distances [OF exact, of prev]
  show ?thesis
    using within last(1)
    by (simp add: mouseDragDrawCallback_def dd cd dirs last(2) dist num_le_def)
qed


lemma with_buffer_fields:
  "sys_heap (with_buffer s pts i) = sys_heap s"
  "sys_annotations (with_buffer s pts i) = sys_annotations s"
  "drawData (sys_tool (with_buffer s pts i)) = Some \<lparr>canvasPoints = pts, polylineIndex = i\<rparr>"
  "commonData (sys_tool (with_buffer s pts i)) = commonData (sys_tool s)"
  "configuration (sys_tool (with_buffer s pts i)) = configuration (sys_tool s)"
  "isDrawing (sys_tool (with_buffer s pts i)) = isDrawing (sys_tool s)"
  "with_buffer (with_buffer s pts i) pts' i' = with_buffer s pts' i'"
  by (simp_all add: with_buffer_def)











section \<open>Crossing the own line while drawing\<close>

lemma segmentsIntersect_from_sound:
  "segmentsIntersect_from i ps p q = Some (a, b) \<Longrightarrow> i \<le> a \<and> b = Suc a \<and> b < i + length ps"
proof (induction i ps p q rule: segmentsIntersect_from.induct)
  case (1 i a' b' ps p q)
  then show ?case by (auto split: if_splits)
qed simp_all

lemma plane_env_sound: "sound_intersection plane_env"
  unfolding sound_intersection_def plane_env_fields segmentsIntersect_def
  by (auto dest: segmentsIntersect_from_sound)

lemma removeCrossedLines_kept:
  assumes "sound_intersection env" "pts \<noteq> []"
  shows "removeCrossedLinesOnCompleteDraw env pts \<noteq> []"
proof (cases "getFirstIntersectionWithPolyline env (tl (butlast pts)) (hd pts) (last pts) False")
  case None
  with assms(2) show ?thesis by (simp add: removeCrossedLinesOnCompleteDraw_def)
next
  case (Some r)
  obtain i j where r: "r = (i, j)" by (cases r)
  with Some assms(1) have "i < j" unfolding sound_intersection_def by blast
  with Some r assms(2) show ?thesis by (simp add: removeCrossedLinesOnCompleteDraw_def)
qed

text \<open>
  C1, as amended. Take a drag sample during drawing that the spacing test does not
  discard, and for which the intersection test, a sound one, reports that the pointer's
  last move, from the previous pointer position to the current one, crosses the segment
  from point \<open>k\<close> to point \<open>k'\<close> of the buffer without its last point. The tool forms the
  loop from the buffer points from index \<open>k\<close> on (the points recorded before index \<open>k\<close>
  are discarded) followed by the points inserted back towards the buffer point at index
  \<open>k\<close>, completes the contour as closed from that loop, and activates the closed contour
  edit in the same callback. Afterwards \<open>isDrawing\<close> is false, the draw buffer is gone,
  the draw callbacks are unregistered and the edit state is entered.
\<close>

theorem crossing_closes_contour:
  assumes sound: "sound_intersection env"
    and dd: "drawData (sys_tool s) = Some dd"
    and cd: "commonData (sys_tool s) = Some cd"
    and far:
      "\<not> (num_le (Math_abs (vec3_dot (vec3_subtract (currentPoints_world evt)
                  (canvasToWorld env (last (canvasPoints dd)))) (xDir cd))) (fst (spacing cd))
          \<and> num_le (Math_abs (vec3_dot (vec3_subtract (currentPoints_world evt)
                  (canvasToWorld env (last (canvasPoints dd)))) (yDir cd))) (snd (spacing cd)))"
    and cross: "getFirstIntersectionWithPolyline env (butlast (canvasPoints dd))
                  (currentPoints_canvas evt) (lastPoints_canvas evt) False = Some (k, k')"
    and loop: "loop = drop k (canvasPoints dd)
                 @ sampledPointsBetween env (canvasPoints dd) (canvasPoints dd ! k) cd"
    and kept: "kept = removeCrossedLinesOnCompleteDraw env loop"
  shows "case mouseDragDrawCallback env s evt of
           Inl e \<Rightarrow> False
         | Inr s' \<Rightarrow>
             \<not> isDrawing (sys_tool s') \<and> drawData (sys_tool s') = None
             \<and> commonData (sys_tool s') = None \<and> \<not> drawListeners (sys_tool s')
             \<and> isEditingClosed (sys_tool s')
             \<and> annotationCompleted (sys_tool s')
                  = annotationCompleted (sys_tool s) @ [cd_annotation cd]
             \<and> data_isOpenContour (anns (sys_heap s') (cd_annotation cd)) = Some False
             \<and> data_polyline (anns (sys_heap s') (cd_annotation cd))
                  = map (canvasToWorld env) (kept @ sampledPointsBetween env kept (hd kept) cd)"
proof -
  from sound cross have "k < k'" "k' < length (butlast (canvasPoints dd))"
    unfolding sound_intersection_def by blast+
  then have k: "k < length (canvasPoints dd)" and ne: "canvasPoints dd \<noteq> []"
    by auto
  let ?s1 = "s\<lparr>sys_tool := (sys_tool s)\<lparr>drawData := Some (dd\<lparr>canvasPoints := loop\<rparr>)\<rparr>\<rparr>"
  have lne: "loop \<noteq> []" using k by (simp add: loop)
  have kne: "kept \<noteq> []" unfolding kept using sound lne by (rule removeCrossedLines_kept)
  have c: "completeDrawClosedContour env ?s1 =
           Inr (deactivateDraw
                 (?s1\<lparr>sys_heap := (sys_heap ?s1)
                      \<lparr>anns := (anns (sys_heap ?s1))
                         (cd_annotation cd := (anns (sys_heap ?s1) (cd_annotation cd))
                            \<lparr>data_polyline :=
                               map (canvasToWorld env) (kept @ sampledPointsBetween env kept (hd kept) cd),
                             data_isOpenContour := Some False\<rparr>)\<rparr>,
                    sys_tool := (sys_tool ?s1)
                      \<lparr>annotationCompleted := annotationCompleted (sys_tool ?s1) @ [cd_annotation cd],
                       isDrawing := False, drawData := None, commonData := None\<rparr>\<rparr>))"
    using lne kne
    by (simp add: completeDrawClosedContour_def cd addCanvasPointsToArray_def Let_def
        butlast_append kept [symmetric])
  have a: "applyCreateOnCross env s evt k =
             (case completeDrawClosedContour env ?s1 of
                Inl e \<Rightarrow> Inl e
              | Inr s2 \<Rightarrow> Inr (activateClosedContourEdit env (cd_annotation cd) s2))"
    using k by (simp add: applyCreateOnCross_def dd cd js_nth_def addCanvasPointsToArray_def
        Let_def butlast_append loop)
  have f: "findCrossingIndexDuringCreate env (canvasPoints dd) evt = Some k"
    by (simp add: findCrossingIndexDuringCreate_def cross)
  have m: "mouseDragDrawCallback env s evt = applyCreateOnCross env s evt k"
    using far ne by (auto simp: mouseDragDrawCallback_def dd cd f Let_def)
  show ?thesis
    by (simp add: m a c activateClosedContourEdit_def deactivateDraw_def)
qed

lemma drawing_with_fields:
  "sys_heap (drawing_with pts) = heap2"
  "sys_annotations (drawing_with pts) = 0"
  "drawData (sys_tool (drawing_with pts))
     = Some \<lparr>canvasPoints = pts, polylineIndex = int (length pts) - 1\<rparr>"
  "commonData (sys_tool (drawing_with pts)) =
     Some \<lparr>cd_annotation = 1, viewportIdsToRender = [''viewport-1''],
           spacing = (1 / 4, 1 / 4), xDir = (1, 0, 0), yDir = (0, 1, 0)\<rparr>"
  "configuration (sys_tool (drawing_with pts)) = config4"
  "annotationCompleted (sys_tool (drawing_with pts)) = []"
  "isDrawing (sys_tool (drawing_with pts))"
  by (simp_all add: drawing_with_def drawing_at_fields Let_def)

lemma hook_cross:
  "getFirstIntersectionWithPolyline plane_env (butlast hook_path) (2, - 1) (2, 3) False = Some (1, 2)"
  by (simp add: hook_path_def plane_env_fields segmentsIntersect_def properlyIntersect_def
      orient_def)

lemma hook_kept:
  "removeCrossedLinesOnCompleteDraw plane_env [(0, 0), (4, 0), (4, 3), (2, 3)]
     = [(0, 0), (4, 0), (4, 3), (2, 3)]"
  by (simp add: removeCrossedLinesOnCompleteDraw_def plane_env_fields segmentsIntersect_def
      properlyIntersect_def orient_def)

lemma hook_distances:
  "Math_abs (vec3_dot (vec3_subtract (currentPoints_world (drag_to (2, 3) (2, - 1)))
                         (canvasToWorld plane_env (2, 3))) (1, 0, 0)) = Finite 0"
  "Math_abs (vec3_dot (vec3_subtract (currentPoints_world (drag_to (2, 3) (2, - 1)))
                         (canvasToWorld plane_env (2, 3))) (0, 1, 0)) = Finite 4"
  using plane_distances(1,2) [of 2 2 "- 1" 3 "(2, 3)"] by simp_all

text \<open>
  The instance with the gesture \<open>hook_path\<close> and a move of the pointer from (2, 3) to
  (2, -1), which crosses the segment from point 1 to point 2.
\<close>

theorem crossing_closes_witness:
  "sound_intersection plane_env
   \<and> hook_path = [(0, 5), (0, 0), (4, 0), (4, 3), (2, 3)]
   \<and> getFirstIntersectionWithPolyline plane_env (butlast hook_path) (2, - 1) (2, 3) False
       = Some (1, 2)
   \<and> isDrawing (sys_tool (drawing_with hook_path))
   \<and> (case mouseDragDrawCallback plane_env (drawing_with hook_path) (drag_to (2, 3) (2, - 1)) of
         Inl e \<Rightarrow> False
       | Inr s' \<Rightarrow>
           \<not> isDrawing (sys_tool s') \<and> drawData (sys_tool s') = None
           \<and> isEditingClosed (sys_tool s')
           \<and> annotationCompleted (sys_tool s') = [1]
           \<and> data_isOpenContour (anns (sys_heap s') 1) = Some False
           \<and> data_polyline (anns (sys_heap s') 1)
                = [(0, 0, 0), (4, 0, 0), (4, 3, 0), (2, 3, 0)])"
proof -
  let ?dd = "\<lparr>canvasPoints = hook_path, polylineIndex = 4\<rparr>"
  let ?cd = "\<lparr>cd_annotation = 1, viewportIdsToRender = [''viewport-1''],
           spacing = (1 / 4, 1 / 4), xDir = (1, 0, 0), yDir = (0, 1, 0)\<rparr>"
  let ?evt = "drag_to (2, 3) (2, - 1)"
  let ?loop = "[(0, 0), (4, 0), (4, 3), (2, 3)] :: point2 list"
  have dd: "drawData (sys_tool (drawing_with hook_path)) = Some ?dd"
    by (simp add: drawing_with_fields hook_path_def)
  have cd: "commonData (sys_tool (drawing_with hook_path)) = Some ?cd"
    by (simp add: drawing_with_fields)
  have last: "last (canvasPoints ?dd) = (2, 3)" by (simp add: hook_path_def)
  have far:
      "\<not> (num_le (Math_abs (vec3_dot (vec3_subtract (currentPoints_world ?evt)
                  (canvasToWorld plane_env (last (canvasPoints ?dd)))) (xDir ?cd))) (fst (spacing ?cd))
          \<and> num_le (Math_abs (vec3_dot (vec3_subtract (currentPoints_world ?evt)
                  (canvasToWorld plane_env (last (canvasPoints ?dd)))) (yDir ?cd))) (snd (spacing ?cd)))"
    unfolding last by (simp add: hook_distances num_le_def)
  have cross: "getFirstIntersectionWithPolyline plane_env (butlast (canvasPoints ?dd))
                  (currentPoints_canvas ?evt) (lastPoints_canvas ?evt) False = Some (1, 2)"
    using hook_cross by (simp add: drag_to_def)
  have loop: "?loop = drop 1 (canvasPoints ?dd)
                 @ sampledPointsBetween plane_env (canvasPoints ?dd) (canvasPoints ?dd ! 1) ?cd"
    by (simp add: hook_path_def plane_env_fields)
  have kept: "?loop = removeCrossedLinesOnCompleteDraw plane_env ?loop"
    using hook_kept by simp
  note r = crossing_closes_contour [OF plane_env_sound dd cd far cross loop kept]
  from r plane_env_sound hook_cross show ?thesis
    by (simp add: drawing_with_fields plane_env_fields hook_path_def [symmetric]
        split: sum.splits)
qed

text \<open>The same drag event, computed without the theorem.\<close>

lemma hook_result:
  "case mouseDragDrawCallback plane_env (drawing_with hook_path) (drag_to (2, 3) (2, - 1)) of
     Inl e \<Rightarrow> False
   | Inr s' \<Rightarrow>
       \<not> isDrawing (sys_tool s')
       \<and> data_polyline (anns (sys_heap s') 1) = [(0, 0, 0), (4, 0, 0), (4, 3, 0), (2, 3, 0)]"
proof -
  have f: "findCrossingIndexDuringCreate plane_env hook_path (drag_to (2, 3) (2, - 1)) = Some 1"
    using hook_cross by (simp add: findCrossingIndexDuringCreate_def drag_to_def)
  have last: "last hook_path = (2, 3)" "hook_path \<noteq> []" by (simp_all add: hook_path_def)
  have m: "mouseDragDrawCallback plane_env (drawing_with hook_path) (drag_to (2, 3) (2, - 1))
      = applyCreateOnCross plane_env (drawing_with hook_path) (drag_to (2, 3) (2, - 1)) 1"
    by (simp add: mouseDragDrawCallback_def drawing_with_fields f last hook_distances num_le_def)
  have "case applyCreateOnCross plane_env (drawing_with hook_path) (drag_to (2, 3) (2, - 1)) 1 of
         Inl e \<Rightarrow> False
       | Inr s' \<Rightarrow> \<not> isDrawing (sys_tool s')
           \<and> data_polyline (anns (sys_heap s') 1) = [(0, 0, 0), (4, 0, 0), (4, 3, 0), (2, 3, 0)]"
    by (simp add: applyCreateOnCross_def drawing_with_fields hook_path_def js_nth_def
        addCanvasPointsToArray_def plane_env_fields completeDrawClosedContour_def hook_kept
        deactivateDraw_def activateClosedContourEdit_def Let_def)
  then show ?thesis unfolding m .
qed

text \<open>
  The gesture \<open>slow_path\<close> ends at (2, 0.125), just above its first segment. A move of the
  pointer to (2, -0.125) crosses that segment and stays within the spacing (0.25, 0.25)
  of the last buffer point; the next move, to (2, -0.5), is beyond the spacing and
  crosses nothing.
\<close>

lemma slow_cross:
  "getFirstIntersectionWithPolyline plane_env (butlast slow_path) (2, - (1 / 8)) (2, 1 / 8) False
     = Some (0, 1)"
  "getFirstIntersectionWithPolyline plane_env (butlast slow_path) (2, - (1 / 2)) (2, 1 / 8) False
     = Some (0, 1)"
  "getFirstIntersectionWithPolyline plane_env (butlast slow_path) (2, - (1 / 2)) (2, - (1 / 8)) False
     = None"
  by (simp_all add: slow_path_def plane_env_fields segmentsIntersect_def properlyIntersect_def
      orient_def)

lemma slow_discarded:
  "mouseDragDrawCallback plane_env (drawing_with slow_path) (drag_to (2, 1 / 8) (2, - (1 / 8)))
     = Inr (drawing_with slow_path)"
  using plane_drag_discarded [of "drawing_with slow_path" slow_path 3 _ 2 "1 / 8" 2 "- (1 / 8)"
      "(2, 1 / 8)"]
  by (simp add: drawing_with_fields) (simp add: slow_path_def)

lemma slow_recorded:
  "mouseDragDrawCallback plane_env (drawing_with slow_path) (drag_to (2, - (1 / 8)) (2, - (1 / 2)))
     = Inr (with_buffer (drawing_with slow_path) (slow_path @ [(2, - (1 / 2))]) 4)"
  using plane_drag_recorded [of "drawing_with slow_path" slow_path 3 _ 2 "1 / 8" 2 "- (1 / 2)"
      "(2, - (1 / 8))"] slow_cross(3)
  by (simp add: drawing_with_fields plane_env_fields) (simp add: slow_path_def)

text \<open>
  C1 as stated fails in three ways. With the crossing at index 1 of \<open>hook_path\<close>, the
  stored contour is made of the buffer points from index 1 on: the points recorded after
  index 1 are kept, and it is the point recorded before index 1 that is gone. A move of
  the pointer that crosses the first segment of \<open>slow_path\<close> within the spacing of the
  last buffer point is discarded, and the tool goes on drawing. And the next sample is
  recorded although the segment from the last buffer point to it crosses that first
  segment, because the pointer's last move does not: the tool goes on drawing with a
  buffer that crosses itself.
\<close>

theorem crossing_keeps_later_points_counterexample:
  "hook_path = [(0, 5), (0, 0), (4, 0), (4, 3), (2, 3)]
   \<and> getFirstIntersectionWithPolyline plane_env (butlast hook_path) (2, - 1) (2, 3) False
       = Some (1, 2)
   \<and> (case mouseDragDrawCallback plane_env (drawing_with hook_path) (drag_to (2, 3) (2, - 1)) of
         Inl e \<Rightarrow> False
       | Inr s' \<Rightarrow>
           data_polyline (anns (sys_heap s') 1)
             = map (canvasToWorld plane_env) (drop 1 hook_path)
           \<and> data_polyline (anns (sys_heap s') 1)
             \<noteq> map (canvasToWorld plane_env) (take 2 hook_path))
   \<and> slow_path = [(0, 0), (4, 0), (4, 3), (2, 1 / 8)]
   \<and> spacing (the (commonData (sys_tool (drawing_with slow_path)))) = (1 / 4, 1 / 4)
   \<and> getFirstIntersectionWithPolyline plane_env (butlast slow_path) (2, - (1 / 8)) (2, 1 / 8) False
       = Some (0, 1)
   \<and> mouseDragDrawCallback plane_env (drawing_with slow_path) (drag_to (2, 1 / 8) (2, - (1 / 8)))
       = Inr (drawing_with slow_path)
   \<and> isDrawing (sys_tool (drawing_with slow_path))
   \<and> getFirstIntersectionWithPolyline plane_env (butlast slow_path) (2, - (1 / 2)) (2, 1 / 8) False
       = Some (0, 1)
   \<and> (case mouseDragDrawCallback plane_env (drawing_with slow_path)
              (drag_to (2, - (1 / 8)) (2, - (1 / 2))) of
         Inl e \<Rightarrow> False
       | Inr s' \<Rightarrow>
           isDrawing (sys_tool s')
           \<and> drawData (sys_tool s')
               = Some \<lparr>canvasPoints = [(0, 0), (4, 0), (4, 3), (2, 1 / 8), (2, - (1 / 2))],
                       polylineIndex = 4\<rparr>)"
proof (intro conjI)
  show "hook_path = [(0, 5), (0, 0), (4, 0), (4, 3), (2, 3)]" by (rule hook_path_def)
  show "getFirstIntersectionWithPolyline plane_env (butlast hook_path) (2, - 1) (2, 3) False
       = Some (1, 2)"
    by (rule hook_cross)
  show "case mouseDragDrawCallback plane_env (drawing_with hook_path) (drag_to (2, 3) (2, - 1)) of
         Inl e \<Rightarrow> False
       | Inr s' \<Rightarrow>
           data_polyline (anns (sys_heap s') 1)
             = map (canvasToWorld plane_env) (drop 1 hook_path)
           \<and> data_polyline (anns (sys_heap s') 1)
             \<noteq> map (canvasToWorld plane_env) (take 2 hook_path)"
    using hook_result by (simp add: hook_path_def plane_env_fields split: sum.splits)
  show "slow_path = [(0, 0), (4, 0), (4, 3), (2, 1 / 8)]" by (rule slow_path_def)
  show "spacing (the (commonData (sys_tool (drawing_with slow_path)))) = (1 / 4, 1 / 4)"
    by (simp add: drawing_with_fields)
  show "getFirstIntersectionWithPolyline plane_env (butlast slow_path) (2, - (1 / 8)) (2, 1 / 8) False
       = Some (0, 1)"
    by (rule slow_cross)
  show "mouseDragDrawCallback plane_env (drawing_with slow_path) (drag_to (2, 1 / 8) (2, - (1 / 8)))
       = Inr (drawing_with slow_path)"
    by (rule slow_discarded)
  show "isDrawing (sys_tool (drawing_with slow_path))"
    by (simp add: drawing_with_fields)
  show "getFirstIntersectionWithPolyline plane_env (butlast slow_path) (2, - (1 / 2)) (2, 1 / 8) False
       = Some (0, 1)"
    by (rule slow_cross)
  show "case mouseDragDrawCallback plane_env (drawing_with slow_path)
              (drag_to (2, - (1 / 8)) (2, - (1 / 2))) of
         Inl e \<Rightarrow> False
       | Inr s' \<Rightarrow>
           isDrawing (sys_tool s')
           \<and> drawData (sys_tool s')
               = Some \<lparr>canvasPoints = [(0, 0), (4, 0), (4, 3), (2, 1 / 8), (2, - (1 / 2))],
                       polylineIndex = 4\<rparr>"
    unfolding slow_recorded
    by (simp add: with_buffer_fields drawing_with_fields slow_path_def)
qed

end
